theory Spec2Isabelle
  imports Main "HOL-Library.Multiset"
begin

section \<open>Job matcher and CV rater: ingestion pipeline and matching engine\<close>

text \<open>
  A shallow embedding of \<^verbatim>\<open>src/main.py\<close>: the PDF rasterizer, the per-page text
  extraction, the CV batch ingestion, the parser of the scoring reply and the matching
  and ranking loop. The widget updates (\<^verbatim>\<open>self.root.after\<close>, labels, message boxes)
  carry no data back into the pipeline and are left out, as is the processing of the job
  advertisement, which hands the matching loop one string.

  Python strings are modelled by \<^typ>\<open>string\<close>, a character being read as the code
  point it numbers (0 to 255); text with code points above 255 is outside the model. File
  contents are byte strings of the same type.

  Every call that leaves the program (the PDF library, the file system, the three uses
  of the generative model) is a function of its argument and of an outside world
  \<^typ>\<open>'w\<close>, returning its outcome with the next world. An outcome \<open>Inl e\<close> is an
  exception whose description is \<open>e\<close>. The world is threaded through the calls in the
  order the source makes them, so a service may answer the same request differently
  every time.
\<close>

subsection \<open>Strings as Python sees them\<close>

definition is_space :: "char \<Rightarrow> bool" where
  \<comment> \<open>\<^verbatim>\<open>\s\<close> of a str pattern and \<^verbatim>\<open>str.isspace\<close>, on code points below 256\<close>
  "is_space c = (c \<in> set [CHR 0x09, CHR 0x0A, CHR 0x0B, CHR 0x0C, CHR 0x0D,
                            CHR 0x1C, CHR 0x1D, CHR 0x1E, CHR 0x1F, CHR 0x20,
                            CHR 0x85, CHR 0xA0])"

definition is_digit :: "char \<Rightarrow> bool" where
  \<comment> \<open>\<^verbatim>\<open>\d\<close> of a str pattern, on code points below 256\<close>
  "is_digit c = (c \<in> set ''0123456789'')"

definition digit_val :: "char \<Rightarrow> int" where
  "digit_val c = int (of_char c) - 48"

definition max_str_digits :: nat where
  \<comment> \<open>\<^verbatim>\<open>sys.int_info.default_max_str_digits\<close>: the longest numeral \<^verbatim>\<open>int\<close> converts\<close>
  "max_str_digits = 4300"

definition py_int :: "string \<Rightarrow> int option" where
  \<comment> \<open>\<^verbatim>\<open>int(s)\<close> on a string of decimal digits; \<open>None\<close> is ValueError, which a string of
      more than \<^verbatim>\<open>max_str_digits\<close> digits raises, leading zeros counted. Signs, blanks
      and underscores, which \<^verbatim>\<open>int\<close> also reads, never reach it from \<^verbatim>\<open>(\d+)\<close>.\<close>
  "py_int s = (if s \<noteq> [] \<and> list_all is_digit s \<and> length s \<le> max_str_digits
               then Some (foldl (\<lambda>n c. 10 * n + digit_val c) 0 s) else None)"

definition py_strip :: "string \<Rightarrow> string" where
  \<comment> \<open>\<^verbatim>\<open>s.strip()\<close>\<close>
  "py_strip s = rev (dropWhile is_space (rev (dropWhile is_space s)))"

fun starts_with :: "string \<Rightarrow> string \<Rightarrow> bool" where
  \<comment> \<open>\<^verbatim>\<open>s.startswith(p)\<close>, the pattern first\<close>
  "starts_with [] s = True"
| "starts_with (p # ps) [] = False"
| "starts_with (p # ps) (c # cs) = (p = c \<and> starts_with ps cs)"

fun contains :: "string \<Rightarrow> string \<Rightarrow> bool" where
  \<comment> \<open>\<^verbatim>\<open>p in s\<close>, the pattern first\<close>
  "contains p [] = starts_with p []"
| "contains p (c # cs) = (starts_with p (c # cs) \<or> contains p cs)"

definition py_lower_char :: "char \<Rightarrow> char" where
  \<comment> \<open>\<^verbatim>\<open>str.lower\<close> on one code point below 256\<close>
  "py_lower_char c =
     (let n = (of_char c :: nat)
      in if (65 \<le> n \<and> n \<le> 90) \<or> (192 \<le> n \<and> n \<le> 222 \<and> n \<noteq> 215)
         then char_of (n + 32) else c)"

definition py_lower :: "string \<Rightarrow> string" where
  "py_lower s = map py_lower_char s"

definition endswith :: "string \<Rightarrow> string \<Rightarrow> bool" where
  \<comment> \<open>\<^verbatim>\<open>s.endswith(p)\<close>\<close>
  "endswith s p = starts_with (rev p) (rev s)"

fun py_join :: "string \<Rightarrow> string list \<Rightarrow> string" where
  \<comment> \<open>\<^verbatim>\<open>sep.join(xs)\<close>\<close>
  "py_join sep [] = []"
| "py_join sep [x] = x"
| "py_join sep (x # y # ys) = x @ sep @ py_join sep (y # ys)"

fun split_on :: "char \<Rightarrow> string \<Rightarrow> string list" where
  \<comment> \<open>\<^verbatim>\<open>s.split(c)\<close> for a one-character separator: never empty\<close>
  "split_on d [] = [[]]"
| "split_on d (c # cs) =
     (if c = d then [] # split_on d cs
      else (case split_on d cs of [] \<Rightarrow> [[c]] | p # ps \<Rightarrow> (c # p) # ps))"

definition basename :: "string \<Rightarrow> string" where
  \<comment> \<open>\<^verbatim>\<open>file_path.split('/')[-1]\<close>\<close>
  "basename p = last (split_on CHR ''/'' p)"

definition page_sep :: string where
  \<comment> \<open>\<^verbatim>\<open>"\n\n"\<close>\<close>
  "page_sep = [CHR 0x0A, CHR 0x0A]"

subsection \<open>The parser of the scoring reply\<close>

definition match_percentage_at :: "string \<Rightarrow> string option" where
  \<comment> \<open>\<^verbatim>\<open>PERCENTAGE:\s*(\d+)%\<close> matched at the start of \<open>s\<close>: group 1. Blanks, digits
      and the percent sign are disjoint, so the greedy runs never have to give back.\<close>
  "match_percentage_at s =
     (if starts_with ''PERCENTAGE:'' s
      then (let r = dropWhile is_space (drop 11 s);
                ds = takeWhile is_digit r;
                r' = dropWhile is_digit r
            in if ds \<noteq> [] \<and> starts_with ''%'' r' then Some ds else None)
      else None)"

fun search_percentage :: "string \<Rightarrow> string option" where
  \<comment> \<open>\<^verbatim>\<open>re.search\<close>: the leftmost position where the pattern matches\<close>
  "search_percentage [] = match_percentage_at []"
| "search_percentage (c # cs) =
     (case match_percentage_at (c # cs) of
        Some ds \<Rightarrow> Some ds
      | None \<Rightarrow> search_percentage cs)"

fun search_justification :: "string \<Rightarrow> string option" where
  \<comment> \<open>\<^verbatim>\<open>re.search(r"JUSTIFICATION:\s*(.*)", text, re.DOTALL)\<close>: group 1, the rest of the
      text after the first occurrence of the label and the blanks behind it\<close>
  "search_justification [] = None"
| "search_justification (c # cs) =
     (if starts_with ''JUSTIFICATION:'' (c # cs)
      then Some (dropWhile is_space (drop 14 (c # cs)))
      else search_justification cs)"

definition no_justification :: string where
  "no_justification = ''N/A - No justification provided.''"

definition parse_reply :: "string \<Rightarrow> int \<times> string" where
  \<comment> \<open>lines 142 to 157 of \<^verbatim>\<open>rate_cv_suitability\<close>\<close>
  "parse_reply text =
     (let score = (case search_percentage text of
                     None \<Rightarrow> 0
                   | Some g \<Rightarrow> (case py_int g of
                                  None \<Rightarrow> 0
                                | Some n \<Rightarrow> max 0 (min 100 n)));
          justification = (case search_justification text of
                             None \<Rightarrow> no_justification
                           | Some g \<Rightarrow> py_strip g)
      in (score, justification))"

subsection \<open>The outside world\<close>

type_synonym bytes = string

record pdf_doc =
  pages :: "(string + bytes) list"
    \<comment> \<open>one entry per page, \<^verbatim>\<open>doc.page_count\<close> of them: what \<^verbatim>\<open>load_page\<close>,
        \<^verbatim>\<open>get_pixmap\<close> and \<^verbatim>\<open>pil_tobytes\<close> give for that page, the PNG bytes or the
        exception one of them raises\<close>
  close_error :: "string option"
    \<comment> \<open>the exception \<^verbatim>\<open>doc.close()\<close> raises, if any\<close>

record 'w services =
  fitz_open :: "string \<Rightarrow> 'w \<Rightarrow> (string + pdf_doc) \<times> 'w"
    \<comment> \<open>\<^verbatim>\<open>fitz.open(pdf_path)\<close>\<close>
  read_file :: "string \<Rightarrow> 'w \<Rightarrow> (string + bytes) \<times> 'w"
    \<comment> \<open>\<^verbatim>\<open>open(file_path, "rb")\<close> and \<^verbatim>\<open>f.read()\<close>\<close>
  vision :: "bytes \<Rightarrow> 'w \<Rightarrow> (string + string list option) \<times> 'w"
    \<comment> \<open>\<^verbatim>\<open>generate_content\<close> on one image: \<open>Inr None\<close> is a reply that is falsy or has
        no candidates, \<open>Inr (Some ts)\<close> the texts of the parts of the first candidate\<close>
  profile_cv :: "string \<Rightarrow> 'w \<Rightarrow> (string + string option) \<times> 'w"
    \<comment> \<open>\<^verbatim>\<open>generate_content\<close> on the CV prompt, given the CV text the prompt carries:
        \<open>Inr None\<close> is a falsy reply, \<open>Inr (Some t)\<close> a reply with text \<open>t\<close>\<close>
  scoring :: "string \<Rightarrow> string \<Rightarrow> 'w \<Rightarrow> (string + string option) \<times> 'w"
    \<comment> \<open>\<^verbatim>\<open>generate_content\<close> on the rating prompt, given the job requirements and the
        candidate profile the prompt carries\<close>

subsection \<open>convert_pdf_to_images\<close>

fun render_pages :: "(string + bytes) list \<Rightarrow> bytes list \<Rightarrow> string + bytes list" where
  \<comment> \<open>the loop of lines 31 to 35; the second argument is \<^verbatim>\<open>image_bytes_list\<close>\<close>
  "render_pages [] acc = Inr acc"
| "render_pages (p # ps) acc =
     (case p of
        Inl e \<Rightarrow> Inl e
      | Inr img_data \<Rightarrow> render_pages ps (acc @ [img_data]))"

definition convert_pdf_to_images :: "'w services \<Rightarrow> string \<Rightarrow> 'w \<Rightarrow> bytes list \<times> 'w" where
  "convert_pdf_to_images env pdf_path w =
     (case fitz_open env pdf_path w of
        (Inl e, w') \<Rightarrow> ([], w')
      | (Inr doc, w') \<Rightarrow>
          (case render_pages (pages doc) [] of
             Inl e \<Rightarrow> ([], w')
           | Inr image_bytes_list \<Rightarrow>
               (case close_error doc of
                  Some e \<Rightarrow> ([], w')
                | None \<Rightarrow> (image_bytes_list, w'))))"

subsection \<open>get_text_from_image_data and _process_document_to_text_list\<close>

definition get_text_from_image_data :: "'w services \<Rightarrow> bytes \<Rightarrow> 'w \<Rightarrow> string \<times> 'w" where
  "get_text_from_image_data env image_data w =
     (case vision env image_data w of
        (Inl e, w') \<Rightarrow> ([], w')
      | (Inr None, w') \<Rightarrow> ([], w')
      | (Inr (Some text_parts), w') \<Rightarrow> (concat text_parts, w'))"

fun extract_pages :: "'w services \<Rightarrow> bytes list \<Rightarrow> string list \<Rightarrow> 'w \<Rightarrow> string list \<times> 'w" where
  \<comment> \<open>the loop of lines 285 to 289; the third argument is \<^verbatim>\<open>all_text_pages\<close>\<close>
  "extract_pages env [] all_text_pages w = (all_text_pages, w)"
| "extract_pages env (img_bytes # rest) all_text_pages w =
     (case get_text_from_image_data env img_bytes w of
        (extracted_text, w') \<Rightarrow>
          extract_pages env rest (all_text_pages @ [extracted_text]) w')"

definition load_images :: "'w services \<Rightarrow> string \<Rightarrow> 'w \<Rightarrow> bytes list option \<times> 'w" where
  \<comment> \<open>lines 271 to 282: \<^verbatim>\<open>image_bytes_list\<close> of one file; \<open>None\<close> is the file that
      cannot be read, at which the source returns the empty string\<close>
  "load_images env file_path w =
     (if endswith (py_lower file_path) ''.pdf''
      then (case convert_pdf_to_images env file_path w of
              (image_bytes_list, w1) \<Rightarrow> (Some image_bytes_list, w1))
      else (case read_file env file_path w of
              (Inl e, w1) \<Rightarrow> (None, w1)
            | (Inr data, w1) \<Rightarrow> (Some [data], w1)))"

fun process_files ::
  "'w services \<Rightarrow> string list \<Rightarrow> bool \<Rightarrow> string list \<Rightarrow> 'w \<Rightarrow> string \<times> 'w" where
  \<comment> \<open>the loop of lines 270 to 294 over \<^verbatim>\<open>files_to_process\<close>\<close>
  "process_files env [] is_single_file all_text_pages w =
     (py_join page_sep all_text_pages, w)"
| "process_files env (file_path # rest) is_single_file all_text_pages w =
     (case load_images env file_path w of
        (None, w1) \<Rightarrow> ([], w1)
      | (Some image_bytes_list, w1) \<Rightarrow>
          (case extract_pages env image_bytes_list all_text_pages w1 of
             (pages', w2) \<Rightarrow>
               if is_single_file then (py_join page_sep pages', w2)
               else process_files env rest is_single_file pages' w2))"

definition process_document_to_text_list ::
  "'w services \<Rightarrow> string list \<Rightarrow> bool \<Rightarrow> 'w \<Rightarrow> string \<times> 'w" where
  \<comment> \<open>a path that is not a list is wrapped into a one-element list by the source; here the
      caller passes that list\<close>
  "process_document_to_text_list env file_paths is_single_file w =
     process_files env file_paths is_single_file [] w"

subsection \<open>The CV batch\<close>

record cv_info =
  text_raw_cv :: string  \<comment> \<open>the key \<^verbatim>\<open>text_raw\<close>, a reserved word here\<close>
  parsed_info :: string

fun dict_set :: "('k \<times> 'v) list \<Rightarrow> 'k \<Rightarrow> 'v \<Rightarrow> ('k \<times> 'v) list" where
  \<comment> \<open>\<^verbatim>\<open>d[k] = v\<close> on a dict in insertion order: a key already there keeps its place\<close>
  "dict_set [] k v = [(k, v)]"
| "dict_set ((k', v') # kvs) k v =
     (if k' = k then (k, v) # kvs else (k', v') # dict_set kvs k v)"

definition parse_cv_skills_and_experience :: "'w services \<Rightarrow> string \<Rightarrow> 'w \<Rightarrow> string \<times> 'w" where
  "parse_cv_skills_and_experience env cv_text w =
     (case profile_cv env (take 6000 cv_text) w of
        (Inl e, w') \<Rightarrow> (''Error parsing CV: '' @ e, w')
      | (Inr None, w') \<Rightarrow> (''Could not parse CV.'', w')
      | (Inr (Some t), w') \<Rightarrow> (t, w'))"

definition failed_cv :: cv_info where
  \<comment> \<open>the entry of line 397\<close>
  "failed_cv = \<lparr>text_raw_cv = ''Could not extract text.'', parsed_info = ''No text extracted.''\<rparr>"

fun cv_loop ::
  "'w services \<Rightarrow> string list \<Rightarrow> (string \<times> cv_info) list \<Rightarrow> 'w
   \<Rightarrow> (string \<times> cv_info) list \<times> 'w" where
  \<comment> \<open>the loop of lines 382 to 397; the third argument is \<^verbatim>\<open>new_cv_data\<close>\<close>
  "cv_loop env [] new_cv_data w = (new_cv_data, w)"
| "cv_loop env (file_path # rest) new_cv_data w =
     (case process_document_to_text_list env [file_path] False w of
        (full_text, w1) \<Rightarrow>
          if py_strip full_text \<noteq> []
          then (case parse_cv_skills_and_experience env full_text w1 of
                  (parsed, w2) \<Rightarrow>
                    cv_loop env rest
                      (dict_set new_cv_data (basename file_path)
                         \<lparr>text_raw_cv = full_text, parsed_info = parsed\<rparr>) w2)
          else cv_loop env rest (dict_set new_cv_data (basename file_path) failed_cv) w1)"

definition run_cv_processing ::
  "'w services \<Rightarrow> string list \<Rightarrow> 'w \<Rightarrow> (string \<times> cv_info) list \<times> 'w" where
  "run_cv_processing env file_paths w = cv_loop env file_paths [] w"

subsection \<open>rate_cv_suitability and the matching loop\<close>

definition rate_cv_suitability ::
  "'w services \<Rightarrow> string \<Rightarrow> string \<Rightarrow> 'w \<Rightarrow> (int \<times> string) \<times> 'w" where
  "rate_cv_suitability env job_requirements_parsed cv_info_parsed w =
     (case scoring env job_requirements_parsed cv_info_parsed w of
        (Inl e, w') \<Rightarrow> ((0, ''Error rating CV: '' @ e), w')
      | (Inr None, w') \<Rightarrow> (parse_reply [], w')
      | (Inr (Some text), w') \<Rightarrow> (parse_reply text, w'))"

record rating =
  filename :: string
  score :: int
  justification :: string

record match_state =
  cv_ratings :: "rating list"
  max_score :: int
  most_suitable_cv_info :: "rating option"

definition skipped :: "cv_info \<Rightarrow> bool" where
  \<comment> \<open>the test of line 443\<close>
  "skipped cv = (parsed_info cv = [] \<or> contains ''No text extracted'' (parsed_info cv))"

definition skipped_rating :: "string \<Rightarrow> rating" where
  "skipped_rating fn =
     \<lparr>filename = fn, score = 0,
      justification = ''Skipped due to failed text/profile extraction.''\<rparr>"

fun rating_loop ::
  "'w services \<Rightarrow> string \<Rightarrow> (string \<times> cv_info) list \<Rightarrow> match_state \<Rightarrow> 'w
   \<Rightarrow> match_state \<times> 'w" where
  \<comment> \<open>the loop of lines 442 to 469 over \<^verbatim>\<open>self.cv_data.items()\<close>\<close>
  "rating_loop env job_ad_parsed [] st w = (st, w)"
| "rating_loop env job_ad_parsed ((fn, cv) # rest) st w =
     (if skipped cv
      then rating_loop env job_ad_parsed rest
             (st\<lparr>cv_ratings := cv_ratings st @ [skipped_rating fn]\<rparr>) w
      else (case rate_cv_suitability env job_ad_parsed (parsed_info cv) w of
              ((sc, just), w') \<Rightarrow>
                (let current_cv_rating = \<lparr>filename = fn, score = sc, justification = just\<rparr>;
                     st1 = st\<lparr>cv_ratings := cv_ratings st @ [current_cv_rating]\<rparr>
                 in rating_loop env job_ad_parsed rest
                      (if sc > max_score st1
                       then st1\<lparr>max_score := sc,
                                most_suitable_cv_info := Some current_cv_rating\<rparr>
                       else st1) w')))"

definition sort_reverse :: "('a \<Rightarrow> int) \<Rightarrow> 'a list \<Rightarrow> 'a list" where
  \<comment> \<open>\<^verbatim>\<open>xs.sort(key=f, reverse=True)\<close>: the list is reversed, sorted by a stable sort
      and reversed again\<close>
  "sort_reverse f xs = rev (sort_key f (rev xs))"

definition initial_state :: match_state where
  "initial_state = \<lparr>cv_ratings = [], max_score = - 1, most_suitable_cv_info = None\<rparr>"

definition run_matching_and_rating ::
  "'w services \<Rightarrow> string \<Rightarrow> (string \<times> cv_info) list \<Rightarrow> 'w
   \<Rightarrow> (rating option \<times> rating list) \<times> 'w" where
  \<comment> \<open>the two values handed to \<^verbatim>\<open>_update_results_gui\<close>: the most suitable rating
      and the list of all ratings\<close>
  "run_matching_and_rating env job_ad_parsed cv_data w =
     (case rating_loop env job_ad_parsed cv_data initial_state w of
        (st, w') \<Rightarrow>
          if cv_ratings st = [] \<and> most_suitable_cv_info st = None
          then ((None, []), w')
          else ((most_suitable_cv_info st, sort_reverse score (cv_ratings st)), w'))"

subsection \<open>Recording the calls that leave the program\<close>

datatype call =
  Call_open string
| Call_read string
| Call_vision bytes
| Call_profile string
| Call_scoring string string

definition logged :: "('a \<Rightarrow> call) \<Rightarrow> ('a \<Rightarrow> 'w \<Rightarrow> 'r \<times> 'w) \<Rightarrow> 'a \<Rightarrow> 'w \<times> call list \<Rightarrow> 'r \<times> 'w \<times> call list" where
  "logged c f x wl = (case f x (fst wl) of (r, w') \<Rightarrow> (r, (w', snd wl @ [c x])))"

definition recording :: "'w services \<Rightarrow> ('w \<times> call list) services" where
  \<comment> \<open>the same services, each call also appended to a log kept beside the world\<close>
  "recording env =
     \<lparr>fitz_open = logged Call_open (fitz_open env),
      read_file = logged Call_read (read_file env),
      vision = logged Call_vision (vision env),
      profile_cv = logged Call_profile (profile_cv env),
      scoring = (\<lambda>job. logged (Call_scoring job) (scoring env job))\<rparr>"

subsection \<open>A small world to run the pipeline in\<close>

text \<open>
  Two PDF files with the same file name in different folders, a PDF whose second page
  cannot be rendered, a scanned image, and services that answer by what they are sent.
  The world is \<^typ>\<open>unit\<close>: nothing changes between calls.
\<close>

definition nl :: string where
  "nl = [CHR 0x0A]"

definition sample_open :: "string \<Rightarrow> string + pdf_doc" where
  "sample_open p =
     (if p = ''a/cv.pdf'' then Inr \<lparr>pages = [Inr ''A1'', Inr ''A2''], close_error = None\<rparr>
      else if p = ''b/cv.pdf'' then Inr \<lparr>pages = [Inr ''B1''], close_error = None\<rparr>
      else if p = ''torn.pdf'' then Inr \<lparr>pages = [Inr ''T1'', Inl ''bad page''], close_error = None\<rparr>
      else Inl ''cannot open'')"

definition sample_read :: "string \<Rightarrow> string + bytes" where
  "sample_read p = (if p = ''scan.png'' then Inr ''S1'' else Inl ''no such file'')"

definition sample_vision :: "bytes \<Rightarrow> string + string list option" where
  "sample_vision img =
     (if img = ''A1'' then Inr (Some [''Alice'', '' Python''])
      else if img = ''A2'' then Inl ''timeout''
      else if img = ''B1'' then Inr (Some [''Bob Java''])
      else if img = ''S1'' then Inr (Some [''Carol''])
      else Inr None)"

definition sample_profile :: "string \<Rightarrow> string + string option" where
  "sample_profile t = (if t = ''Carol'' then Inl ''quota'' else Inr (Some (''Skills: '' @ t)))"

definition sample_scoring :: "string \<Rightarrow> string \<Rightarrow> string + string option" where
  "sample_scoring job cv =
     (if cv = ''pa'' then Inr (Some (''PERCENTAGE: 80%'' @ nl @ ''JUSTIFICATION: fair''))
      else if cv = ''pb'' \<or> cv = ''pc''
        then Inr (Some (''PERCENTAGE: 95%'' @ nl @ ''JUSTIFICATION: strong''))
      else if cv = ''pd'' then Inl ''service down''
      else if cv = ''pe'' then Inr (Some ''PERCENTAGE: 0%'')
      else Inr (Some ''PERCENTAGE: 50%''))"

definition sample :: "unit services" where
  "sample =
     \<lparr>fitz_open = (\<lambda>p w. (sample_open p, w)),
      read_file = (\<lambda>p w. (sample_read p, w)),
      vision = (\<lambda>img w. (sample_vision img, w)),
      profile_cv = (\<lambda>t w. (sample_profile t, w)),
      scoring = (\<lambda>job cv w. (sample_scoring job cv, w))\<rparr>"

subsection \<open>What the pattern and a decimal numeral mean\<close>

definition pattern_matches_at :: "string \<Rightarrow> string \<Rightarrow> bool" where
  \<comment> \<open>the regular expression \<^verbatim>\<open>PERCENTAGE:\s*(\d+)%\<close> read as a language: \<open>s\<close> begins
      with the label, any blanks, the digits \<open>ds\<close> (at least one) and a percent sign\<close>
  "pattern_matches_at s ds =
     (\<exists>ws rest. s = ''PERCENTAGE:'' @ ws @ ds @ ''%'' @ rest \<and>
        list_all is_space ws \<and> ds \<noteq> [] \<and> list_all is_digit ds)"

fun value_rev :: "string \<Rightarrow> int" where
  \<comment> \<open>the value of a decimal numeral given with its last digit first\<close>
  "value_rev [] = 0"
| "value_rev (c # cs) = digit_val c + 10 * value_rev cs"

definition decimal :: "string \<Rightarrow> int" where
  "decimal ds = value_rev (rev ds)"

subsection \<open>Names for what the matching loop collects\<close>

definition collected_ratings ::
  "'w services \<Rightarrow> string \<Rightarrow> (string \<times> cv_info) list \<Rightarrow> 'w \<Rightarrow> rating list" where
  \<comment> \<open>\<^verbatim>\<open>self.cv_ratings\<close> when the loop ends, before it is sorted\<close>
  "collected_ratings env job cv_data w =
     cv_ratings (fst (rating_loop env job cv_data initial_state w))"

fun all_ratings ::
  "'w services \<Rightarrow> string \<Rightarrow> (string \<times> cv_info) list \<Rightarrow> 'w \<Rightarrow> (bool \<times> rating) list" where
  \<comment> \<open>the rating each candidate gets, in the order of the mapping, marked \<open>True\<close> when
      the scoring service was asked for it\<close>
  "all_ratings env job [] w = []"
| "all_ratings env job ((fn, cv) # rest) w =
     (if skipped cv then (False, skipped_rating fn) # all_ratings env job rest w
      else (case rate_cv_suitability env job (parsed_info cv) w of
              ((sc, just), w') \<Rightarrow>
                (True, \<lparr>filename = fn, score = sc, justification = just\<rparr>)
                  # all_ratings env job rest w'))"

fun track :: "rating list \<Rightarrow> int \<times> rating option \<Rightarrow> int \<times> rating option" where
  \<comment> \<open>lines 467 to 469 run over a list of ratings: \<^verbatim>\<open>max_score\<close> and
      \<^verbatim>\<open>most_suitable_cv_info\<close>\<close>
  "track [] s = s"
| "track (r # rs) (m, t) = track rs (if score r > m then (score r, Some r) else (m, t))"

definition scored_ratings ::
  "'w services \<Rightarrow> string \<Rightarrow> (string \<times> cv_info) list \<Rightarrow> 'w \<Rightarrow> rating list" where
  \<comment> \<open>the collected ratings of the candidates that were not skipped\<close>
  "scored_ratings env job cv_data w =
     map snd (filter (\<lambda>cr. \<not> skipped (snd (fst cr)))
       (zip cv_data (collected_ratings env job cv_data w)))"

text \<open>Candidate mappings to run the loop on, over the services of the small world.\<close>

definition three_candidates :: "(string \<times> cv_info) list" where
  "three_candidates =
     [(''A'', \<lparr>text_raw_cv = ''cv of A'', parsed_info = ''pa''\<rparr>),
      (''B'', \<lparr>text_raw_cv = ''cv of B'', parsed_info = ''pb''\<rparr>),
      (''C'', \<lparr>text_raw_cv = ''cv of C'', parsed_info = ''pc''\<rparr>)]"

definition failing_candidates :: "(string \<times> cv_info) list" where
  "failing_candidates =
     [(''A'', \<lparr>text_raw_cv = ''cv of A'', parsed_info = ''pa''\<rparr>),
      (''D'', \<lparr>text_raw_cv = ''cv of D'', parsed_info = ''pd''\<rparr>),
      (''B'', \<lparr>text_raw_cv = ''cv of B'', parsed_info = ''pb''\<rparr>)]"

definition mixed_candidates :: "(string \<times> cv_info) list" where
  "mixed_candidates =
     [(''x.jpg'', failed_cv),
      (''A'', \<lparr>text_raw_cv = ''cv of A'', parsed_info = ''pa''\<rparr>),
      (''B'', \<lparr>text_raw_cv = ''cv of B'', parsed_info = ''pb''\<rparr>)]"

definition zero_candidates :: "(string \<times> cv_info) list" where
  "zero_candidates =
     [(''x.jpg'', failed_cv),
      (''E'', \<lparr>text_raw_cv = ''cv of E'', parsed_info = ''pe''\<rparr>)]"

definition quota_candidates :: "(string \<times> cv_info) list" where
  "quota_candidates =
     [(''scan.png'', \<lparr>text_raw_cv = ''Carol'', parsed_info = ''Error parsing CV: quota''\<rparr>)]"

subsection \<open>The texts of the pages of one document\<close>

fun page_texts :: "'w services \<Rightarrow> bytes list \<Rightarrow> 'w \<Rightarrow> string list" where
  \<comment> \<open>what \<^verbatim>\<open>get_text_from_image_data\<close> gives for each image in turn, the world
      handed from one call to the next\<close>
  "page_texts env [] w = []"
| "page_texts env (img # rest) w =
     (case get_text_from_image_data env img w of
        (t, w') \<Rightarrow> t # page_texts env rest w')"

fun is_profile_call :: "call \<Rightarrow> bool" where
  \<comment> \<open>a recorded call of the profile service\<close>
  "is_profile_call (Call_profile t) = True"
| "is_profile_call c = False"

section \<open>Properties\<close>

subsection \<open>The rasterizer\<close>

lemma render_pages_Inr:
  "render_pages ps acc = Inr imgs \<Longrightarrow> map Inr imgs = map Inr acc @ ps"
  by (induction ps arbitrary: acc) (auto split: sum.splits)

lemma render_pages_Inl:
  "Inl e \<in> set ps \<Longrightarrow> \<exists>e'. render_pages ps acc = Inl e'"
  by (induction ps arbitrary: acc) (auto split: sum.splits)

lemma render_pages_all: "render_pages (map Inr imgs) acc = Inr (acc @ imgs)"
  by (induction imgs arbitrary: acc) auto

text \<open>
  C7. A PDF that opens, whose N pages all render and which closes without error is
  converted into exactly its N page images, in page order; a file whose name does not end
  in \<^verbatim>\<open>.pdf\<close> and that can be read gives exactly one element, the bytes of the file as
  they were read.
\<close>

theorem rasterizer_page_count:
  "(fitz_open env pdf_path w = (Inr doc, w') \<and> pages doc = map Inr imgs \<and>
    close_error doc = None
      \<longrightarrow> convert_pdf_to_images env pdf_path w = (imgs, w') \<and>
          length (fst (convert_pdf_to_images env pdf_path w)) = length (pages doc)) \<and>
   (endswith (py_lower file_path) ''.pdf'' \<and> fitz_open env file_path w = (Inr doc, w') \<and>
    pages doc = map Inr imgs \<and> close_error doc = None
      \<longrightarrow> load_images env file_path w = (Some imgs, w')) \<and>
   (\<not> endswith (py_lower file_path) ''.pdf'' \<and> read_file env file_path w = (Inr data, w')
      \<longrightarrow> load_images env file_path w = (Some [data], w'))"
  by (auto simp: convert_pdf_to_images_def load_images_def render_pages_all)

theorem rasterizer_page_count_witness:
  "convert_pdf_to_images sample ''a/cv.pdf'' () = ([''A1'', ''A2''], ()) \<and>
   load_images sample ''a/cv.pdf'' () = (Some [''A1'', ''A2''], ()) \<and>
   load_images sample ''scan.png'' () = (Some [''S1''], ())"
proof -
  let ?doc = "\<lparr>pages = [Inr ''A1'', Inr ''A2''], close_error = None\<rparr>"
  have p: "fitz_open sample ''a/cv.pdf'' () = (Inr ?doc, ())"
    by (simp add: sample_def sample_open_def)
  have q: "pages ?doc = map Inr [''A1'', ''A2'']" "close_error ?doc = None"
    by simp_all
  have e: "endswith (py_lower ''a/cv.pdf'') ''.pdf''"
    by (simp add: endswith_def py_lower_def py_lower_char_def)
  have ne: "\<not> endswith (py_lower ''scan.png'') ''.pdf''"
    by (simp add: endswith_def py_lower_def py_lower_char_def)
  have r: "read_file sample ''scan.png'' () = (Inr ''S1'', ())"
    by (simp add: sample_def sample_read_def)
  from rasterizer_page_count [of sample "''a/cv.pdf''" "()" ?doc "()" "[''A1'', ''A2'']"
      "''a/cv.pdf''" "''S1''"] p q e
  have a: "convert_pdf_to_images sample ''a/cv.pdf'' () = ([''A1'', ''A2''], ())"
    and b: "load_images sample ''a/cv.pdf'' () = (Some [''A1'', ''A2''], ())"
    by blast+
  from rasterizer_page_count [of sample "''scan.png''" "()" ?doc "()" "[]"
      "''scan.png''" "''S1''"] ne r
  have c: "load_images sample ''scan.png'' () = (Some [''S1''], ())"
    by blast
  from a b c show ?thesis by simp
qed

text \<open>
  C10. The conversion of a PDF returns the empty list or the images of all the pages of
  the document, never a part of them: one page that fails to render empties the result,
  whatever was converted before it.
\<close>

theorem convert_pdf_all_or_nothing:
  "(fst (convert_pdf_to_images env pdf_path w) = [] \<or>
    (\<exists>doc. fst (fitz_open env pdf_path w) = Inr doc \<and> close_error doc = None \<and>
           map Inr (fst (convert_pdf_to_images env pdf_path w)) = pages doc)) \<and>
   (\<forall>doc e. fst (fitz_open env pdf_path w) = Inr doc \<and> Inl e \<in> set (pages doc)
       \<longrightarrow> fst (convert_pdf_to_images env pdf_path w) = [])"
proof (cases "fitz_open env pdf_path w")
  case (Pair r w')
  show ?thesis
  proof (cases r)
    case (Inl e)
    with Pair show ?thesis by (simp add: convert_pdf_to_images_def)
  next
    case (Inr doc)
    show ?thesis
    proof (cases "render_pages (pages doc) []")
      case (Inl e)
      with Pair Inr show ?thesis by (simp add: convert_pdf_to_images_def)
    next
      case rp: (Inr imgs)
      from render_pages_Inr [OF rp] have all: "map Inr imgs = pages doc" by simp
      have no_err: "\<And>e. Inl e \<notin> set (pages doc)"
        using render_pages_Inl [of _ "pages doc" "[]"] rp by fastforce
      from Pair Inr rp all no_err show ?thesis
        by (cases "close_error doc") (simp_all add: convert_pdf_to_images_def)
    qed
  qed
qed

theorem convert_pdf_all_or_nothing_witness:
  "fst (fitz_open sample ''torn.pdf'' ()) =
     Inr \<lparr>pages = [Inr ''T1'', Inl ''bad page''], close_error = None\<rparr> \<and>
   fst (convert_pdf_to_images sample ''torn.pdf'' ()) = []"
proof -
  let ?doc = "\<lparr>pages = [Inr ''T1'', Inl ''bad page''], close_error = None\<rparr>"
  have p: "fst (fitz_open sample ''torn.pdf'' ()) = Inr ?doc"
    by (simp add: sample_def sample_open_def)
  have q: "Inl ''bad page'' \<in> set (pages ?doc)"
    by simp
  from convert_pdf_all_or_nothing [of sample "''torn.pdf''" "()"] p q
  have "fst (convert_pdf_to_images sample ''torn.pdf'' ()) = []"
    by blast
  with p show ?thesis by simp
qed

subsection \<open>The score read from the reply\<close>

lemma starts_with_iff: "starts_with p s \<longleftrightarrow> (\<exists>r. s = p @ r)"
  by (induction p s rule: starts_with.induct) auto

lemma starts_with_append [simp]: "starts_with p (p @ r)"
  by (simp add: starts_with_iff)

lemma digit_not_space: "is_digit c \<Longrightarrow> \<not> is_space c"
  by (auto simp: is_digit_def is_space_def)

lemma percent_not_digit: "\<not> is_digit CHR ''%''"
  by (simp add: is_digit_def)

lemma foldl_decimal: "foldl (\<lambda>n c. 10 * n + digit_val c) 0 ds = decimal ds"
  by (induction ds rule: rev_induct) (simp_all add: decimal_def)

lemma py_int_digits:
  "ds \<noteq> [] \<Longrightarrow> list_all is_digit ds \<Longrightarrow> length ds \<le> max_str_digits \<Longrightarrow>
   py_int ds = Some (decimal ds)"
  by (simp add: py_int_def foldl_decimal)

lemma py_int_long: "max_str_digits < length ds \<Longrightarrow> py_int ds = None"
  by (simp add: py_int_def)

lemma nines_value: "value_rev (replicate n CHR ''9'') = 10 ^ n - 1"
  by (induction n) (simp_all add: digit_val_def)

lemma nines_decimal: "decimal (replicate n CHR ''9'') = 10 ^ n - 1"
  by (simp add: decimal_def nines_value)

lemma nines_large: "3 \<le> n \<Longrightarrow> 100 \<le> decimal (replicate n CHR ''9'')"
proof -
  assume "3 \<le> n"
  then have "(10::int) ^ 3 \<le> 10 ^ n" by (intro power_increasing) simp_all
  then show ?thesis by (simp add: nines_decimal)
qed

lemma nines_match:
  "0 < n \<Longrightarrow>
   pattern_matches_at (''PERCENTAGE: '' @ replicate n CHR ''9'' @ ''%'') (replicate n CHR ''9'')"
  unfolding pattern_matches_at_def
  by (rule exI [of _ "'' ''"], rule exI [of _ "[]"])
    (simp add: is_space_def is_digit_def list_all_iff)

lemma match_at_complete:
  assumes "pattern_matches_at s ds"
  shows "match_percentage_at s = Some ds"
proof -
  from assms obtain ws rest where s: "s = ''PERCENTAGE:'' @ ws @ ds @ ''%'' @ rest"
    and ws: "list_all is_space ws" and ne: "ds \<noteq> []" and ds: "list_all is_digit ds"
    by (auto simp: pattern_matches_at_def)
  from ne obtain d ds' where dd: "ds = d # ds'" by (cases ds) auto
  with ds have "\<not> is_space d" by (simp add: digit_not_space)
  with ws dd have a: "dropWhile is_space (ws @ ds @ ''%'' @ rest) = ds @ ''%'' @ rest"
    by (simp add: dropWhile_append list_all_iff)
  have dr: "drop 11 s = ws @ ds @ ''%'' @ rest"
    unfolding s by simp
  have st: "starts_with ''PERCENTAGE:'' s"
    unfolding s by (rule starts_with_append)
  have b: "takeWhile is_digit (ds @ ''%'' @ rest) = ds"
    using ds by (simp add: takeWhile_append list_all_iff percent_not_digit)
  have c: "dropWhile is_digit (ds @ ''%'' @ rest) = ''%'' @ rest"
    using ds by (simp add: dropWhile_append list_all_iff percent_not_digit)
  show ?thesis
    unfolding match_percentage_at_def Let_def dr a b c using st ne by simp
qed

lemma match_at_sound:
  assumes "match_percentage_at s = Some ds"
  shows "pattern_matches_at s ds"
proof -
  from assms have st: "starts_with ''PERCENTAGE:'' s"
    by (auto simp: match_percentage_at_def split: if_splits)
  then obtain r0 where s: "s = ''PERCENTAGE:'' @ r0" by (auto simp: starts_with_iff)
  have dr: "drop 11 s = r0" unfolding s by simp
  let ?r = "dropWhile is_space r0"
  from assms st have ds: "ds = takeWhile is_digit ?r" and ne: "ds \<noteq> []"
    and pc: "starts_with ''%'' (dropWhile is_digit ?r)"
    by (auto simp: match_percentage_at_def Let_def dr split: if_splits)
  from pc obtain rest where rest: "dropWhile is_digit ?r = ''%'' @ rest"
    by (auto simp: starts_with_iff)
  have "r0 = takeWhile is_space r0 @ ?r" by simp
  also have "?r = ds @ ''%'' @ rest"
    using takeWhile_dropWhile_id [of is_digit ?r] ds rest by simp
  finally have "s = ''PERCENTAGE:'' @ takeWhile is_space r0 @ ds @ ''%'' @ rest"
    using s by simp
  moreover have "list_all is_space (takeWhile is_space r0)"
    by (auto simp: list_all_iff dest: set_takeWhileD)
  moreover have "list_all is_digit ds"
    unfolding ds by (auto simp: list_all_iff dest: set_takeWhileD)
  ultimately show ?thesis
    using ne unfolding pattern_matches_at_def by blast
qed

lemma match_at_iff: "match_percentage_at s = Some ds \<longleftrightarrow> pattern_matches_at s ds"
  using match_at_sound match_at_complete by blast

lemma search_first:
  "match_percentage_at post = Some ds \<Longrightarrow>
   (\<forall>i<length pre. match_percentage_at (drop i (pre @ post)) = None) \<Longrightarrow>
   search_percentage (pre @ post) = Some ds"
proof (induction pre)
  case Nil
  then show ?case by (cases post) auto
next
  case (Cons c pre)
  from Cons.prems(2) have h0: "match_percentage_at (c # pre @ post) = None"
    using Cons.prems(2) [rule_format, of 0] by simp
  have "\<forall>i<length pre. match_percentage_at (drop i (pre @ post)) = None"
  proof (intro allI impI)
    fix i assume "i < length pre"
    then have "Suc i < length (c # pre)" by simp
    with Cons.prems(2) have "match_percentage_at (drop (Suc i) ((c # pre) @ post)) = None"
      by blast
    then show "match_percentage_at (drop i (pre @ post)) = None" by simp
  qed
  with Cons.IH Cons.prems(1) have "search_percentage (pre @ post) = Some ds" by blast
  with h0 show ?case by simp
qed

lemma search_none:
  "(\<forall>i. match_percentage_at (drop i t) = None) \<Longrightarrow> search_percentage t = None"
proof (induction t)
  case Nil
  then show ?case by (metis drop_Nil search_percentage.simps(1))
next
  case (Cons c t)
  from Cons.prems have h0: "match_percentage_at (c # t) = None"
    using Cons.prems [rule_format, of 0] by simp
  have "\<forall>i. match_percentage_at (drop i t) = None"
  proof
    fix i
    from Cons.prems have "match_percentage_at (drop (Suc i) (c # t)) = None" by blast
    then show "match_percentage_at (drop i t) = None" by simp
  qed
  with Cons.IH have "search_percentage t = None" by blast
  with h0 show ?case by simp
qed

lemma search_Some_digits:
  "search_percentage t = Some ds \<Longrightarrow> ds \<noteq> [] \<and> list_all is_digit ds"
proof (induction t)
  case Nil
  then show ?case using match_at_sound by (auto simp: pattern_matches_at_def)
next
  case (Cons c t)
  then show ?case
    using match_at_sound [of "c # t" ds]
    by (auto simp: pattern_matches_at_def split: option.splits)
qed

lemma score_range: "0 \<le> fst (parse_reply text) \<and> fst (parse_reply text) \<le> 100"
  by (auto simp: parse_reply_def Let_def split: option.splits)

lemma match_at_short: "length s < 11 \<Longrightarrow> match_percentage_at s = None"
  by (auto simp: match_percentage_at_def starts_with_iff)

text \<open>
  C4, as the code has it. The score read from a reply lies between 0 and 100. At the
  leftmost place where \<^verbatim>\<open>PERCENTAGE:\<close>, optional blanks, digits and a percent sign stand,
  the score is the number the digits write, cut to the range 0 to 100, when they are at
  most \<^verbatim>\<open>max_str_digits\<close>; with more digits the conversion raises and the score is 0,
  as it is when there is no such place. The reply \<^verbatim>\<open>PERCENTAGE: 137%\<close> gives 100 and
  the reply \<^verbatim>\<open>PERCENTAGE: -5%\<close> gives 0.
\<close>

theorem score_is_first_match_clamped:
  "(0 \<le> fst (parse_reply text) \<and> fst (parse_reply text) \<le> 100) \<and>
   (pattern_matches_at post ds \<and>
    (\<forall>i<length pre. \<forall>g. \<not> pattern_matches_at (drop i (pre @ post)) g)
      \<longrightarrow> fst (parse_reply (pre @ post)) =
            (if length ds \<le> max_str_digits then max 0 (min 100 (decimal ds)) else 0)) \<and>
   ((\<forall>i g. \<not> pattern_matches_at (drop i text) g) \<longrightarrow> fst (parse_reply text) = 0) \<and>
   fst (parse_reply ''PERCENTAGE: 137%'') = 100 \<and>
   fst (parse_reply ''PERCENTAGE: -5%'') = 0"
proof (intro conjI impI)
  show "0 \<le> fst (parse_reply text)" "fst (parse_reply text) \<le> 100"
    using score_range by simp_all
next
  assume h: "pattern_matches_at post ds \<and>
    (\<forall>i<length pre. \<forall>g. \<not> pattern_matches_at (drop i (pre @ post)) g)"
  then have m: "match_percentage_at post = Some ds" by (simp add: match_at_complete)
  from h have "\<forall>i<length pre. match_percentage_at (drop i (pre @ post)) = None"
    by (metis match_at_sound not_None_eq)
  with m have s: "search_percentage (pre @ post) = Some ds" by (rule search_first)
  show "fst (parse_reply (pre @ post)) =
      (if length ds \<le> max_str_digits then max 0 (min 100 (decimal ds)) else 0)"
  proof (cases "length ds \<le> max_str_digits")
    case True
    with h have "py_int ds = Some (decimal ds)"
      by (auto simp: pattern_matches_at_def py_int_digits)
    with s True show ?thesis by (simp add: parse_reply_def)
  next
    case False
    then have "py_int ds = None" by (simp add: py_int_long)
    with s False show ?thesis by (simp add: parse_reply_def)
  qed
next
  assume "\<forall>i g. \<not> pattern_matches_at (drop i text) g"
  then have "\<forall>i. match_percentage_at (drop i text) = None"
    by (metis match_at_sound not_None_eq)
  then have "search_percentage text = None" by (rule search_none)
  then show "fst (parse_reply text) = 0" by (simp add: parse_reply_def)
next
  show "fst (parse_reply ''PERCENTAGE: 137%'') = 100"
    by (simp add: parse_reply_def match_percentage_at_def is_space_def is_digit_def
        py_int_def max_str_digits_def digit_val_def)
  show "fst (parse_reply ''PERCENTAGE: -5%'') = 0"
    by (simp add: parse_reply_def match_percentage_at_def is_space_def is_digit_def
        py_int_def max_str_digits_def digit_val_def)
qed

theorem score_is_first_match_clamped_witness:
  "pattern_matches_at ''PERCENTAGE: 137%'' ''137'' \<and>
   fst (parse_reply (''ok '' @ ''PERCENTAGE: 137%'')) = max 0 (min 100 (decimal ''137'')) \<and>
   decimal ''137'' = 137 \<and>
   fst (parse_reply ''no score'') = 0"
proof -
  have m: "pattern_matches_at ''PERCENTAGE: 137%'' ''137''"
    unfolding pattern_matches_at_def
    by (rule exI [of _ "'' ''"], rule exI [of _ "[]"]) (simp add: is_space_def is_digit_def)
  have e: "\<forall>i<length ''ok ''. \<forall>g. \<not> pattern_matches_at (drop i (''ok '' @ ''PERCENTAGE: 137%'')) g"
  proof (intro allI impI)
    fix i g assume "i < length ''ok ''"
    then have "i = 0 \<or> i = 1 \<or> i = 2" by auto
    then have "match_percentage_at (drop i (''ok '' @ ''PERCENTAGE: 137%'')) = None"
      by (auto simp: match_percentage_at_def)
    then show "\<not> pattern_matches_at (drop i (''ok '' @ ''PERCENTAGE: 137%'')) g"
      by (simp add: match_at_iff [symmetric])
  qed
  have n: "\<forall>i g. \<not> pattern_matches_at (drop i ''no score'') g"
    by (simp add: match_at_iff [symmetric] match_at_short)
  have d: "decimal ''137'' = 137"
    by (simp add: decimal_def digit_val_def)
  have l: "length ''137'' \<le> max_str_digits"
    by (simp add: max_str_digits_def)
  from score_is_first_match_clamped [of "''no score''" "''PERCENTAGE: 137%''" "''137''" "''ok ''"]
    m e n d l
  show ?thesis by presburger
qed

text \<open>
  C4 as it is stated fails on a numeral that \<^verbatim>\<open>int\<close> refuses: behind the label stand
  4301 nines and a percent sign, the pattern matches them, the number they write cut to
  the range is 100, and the score is 0.
\<close>

theorem long_numeral_counterexample:
  "pattern_matches_at (''PERCENTAGE: '' @ replicate 4301 CHR ''9'' @ ''%'')
     (replicate 4301 CHR ''9'') \<and>
   max 0 (min 100 (decimal (replicate 4301 CHR ''9''))) = 100 \<and>
   fst (parse_reply (''PERCENTAGE: '' @ replicate 4301 CHR ''9'' @ ''%'')) = 0"
proof -
  let ?ds = "replicate 4301 CHR ''9''"
  let ?reply = "''PERCENTAGE: '' @ ?ds @ ''%''"
  have m: "pattern_matches_at ?reply ?ds"
    by (rule nines_match) simp
  have "100 \<le> decimal ?ds" by (rule nines_large) simp
  then have c: "max 0 (min 100 (decimal ?ds)) = 100" by simp
  from m have "match_percentage_at ?reply = Some ?ds" by (rule match_at_complete)
  then have "search_percentage ([] @ ?reply) = Some ?ds"
    by (rule search_first) simp
  then have s: "search_percentage ?reply = Some ?ds" by (simp only: append_Nil)
  have "py_int ?ds = None"
    by (rule py_int_long) (simp add: max_str_digits_def)
  with s have "fst (parse_reply ?reply) = 0"
    by (simp only: parse_reply_def Let_def option.case fst_conv)
  with m c show ?thesis by (intro conjI)
qed

subsection \<open>The matching loop\<close>

lemmas sample_simps = sample_def sample_open_def sample_read_def sample_vision_def
  sample_profile_def sample_scoring_def nl_def

lemmas parse_simps = parse_reply_def match_percentage_at_def is_space_def is_digit_def
  py_int_def max_str_digits_def digit_val_def py_strip_def no_justification_def

lemmas engine_simps = run_matching_and_rating_def initial_state_def
      skipped_def skipped_rating_def rate_cv_suitability_def sample_simps parse_simps sort_reverse_def Let_def
      collected_ratings_def

lemmas eval_simps = engine_simps scored_ratings_def failed_cv_def

lemma rating_loop_all:
  "cv_ratings (fst (rating_loop env job cands st w)) =
     cv_ratings st @ map snd (all_ratings env job cands w) \<and>
   (max_score (fst (rating_loop env job cands st w)),
    most_suitable_cv_info (fst (rating_loop env job cands st w))) =
     track (map snd (filter fst (all_ratings env job cands w)))
       (max_score st, most_suitable_cv_info st)"
proof (induction cands arbitrary: st w)
  case Nil
  show ?case by simp
next
  case (Cons c cands)
  obtain fn cv where c: "c = (fn, cv)" by (cases c)
  show ?case
  proof (cases "skipped cv")
    case True
    with c Cons.IH show ?thesis by simp
  next
    case False
    obtain sc just w' where r: "rate_cv_suitability env job (parsed_info cv) w = ((sc, just), w')"
      by (metis prod.exhaust)
    with c False Cons.IH show ?thesis by (simp add: Let_def)
  qed
qed


lemma rating_loop_append:
  "rating_loop env job (xs @ ys) st w =
     (case rating_loop env job xs st w of (st', w') \<Rightarrow> rating_loop env job ys st' w')"
proof (induction xs arbitrary: st w)
  case Nil
  show ?case by simp
next
  case (Cons c xs)
  obtain fn cv where c: "c = (fn, cv)" by (cases c)
  show ?case
  proof (cases "skipped cv")
    case True
    with c Cons.IH show ?thesis by simp
  next
    case False
    obtain sc just w' where "rate_cv_suitability env job (parsed_info cv) w = ((sc, just), w')"
      by (metis prod.exhaust)
    with c False Cons.IH show ?thesis by (simp add: Let_def)
  qed
qed

lemma rate_error:
  "scoring env job p w = (Inl e, w') \<Longrightarrow>
   rate_cv_suitability env job p w = ((0, ''Error rating CV: '' @ e), w')"
  by (simp add: rate_cv_suitability_def)

lemma parse_reply_range: "parse_reply t = (sc, just) \<Longrightarrow> 0 \<le> sc \<and> sc \<le> 100"
  by (auto simp: parse_reply_def Let_def split: option.splits)

lemma rate_range:
  "rate_cv_suitability env job p w = ((sc, just), w') \<Longrightarrow> 0 \<le> sc \<and> sc \<le> 100"
  by (auto simp: rate_cv_suitability_def split: prod.splits sum.splits option.splits
      dest: parse_reply_range)

lemma all_ratings_filenames: "map (filename \<circ> snd) (all_ratings env job cands w) = map fst cands"
proof (induction cands arbitrary: w)
  case Nil
  show ?case by simp
next
  case (Cons c cands)
  obtain fn cv where c: "c = (fn, cv)" by (cases c)
  with Cons.IH show ?case
    by (auto simp: skipped_rating_def split: prod.splits)
qed

lemma all_ratings_flags:
  "map fst (all_ratings env job cands w) = map (\<lambda>c. \<not> skipped (snd c)) cands"
proof (induction cands arbitrary: w)
  case Nil
  show ?case by simp
next
  case (Cons c cands)
  obtain fn cv where c: "c = (fn, cv)" by (cases c)
  with Cons.IH show ?case
    by (auto split: prod.splits)
qed

lemma all_ratings_range:
  "(b, r) \<in> set (all_ratings env job cands w) \<Longrightarrow>
   0 \<le> score r \<and> score r \<le> 100 \<and> (\<not> b \<longrightarrow> r = skipped_rating (filename r))"
proof (induction cands arbitrary: w)
  case Nil
  then show ?case by simp
next
  case (Cons c cands)
  obtain fn cv where c: "c = (fn, cv)" by (cases c)
  show ?case
  proof (cases "skipped cv")
    case True
    with c Cons show ?thesis by (auto simp: skipped_rating_def)
  next
    case False
    obtain sc just w' where r: "rate_cv_suitability env job (parsed_info cv) w = ((sc, just), w')"
      by (metis prod.exhaust)
    with c False Cons rate_range [OF r] show ?thesis by auto
  qed
qed

lemma collected_all:
  "collected_ratings env job cv_data w = map snd (all_ratings env job cv_data w)"
  using rating_loop_all [of env job cv_data initial_state w]
  by (simp add: collected_ratings_def initial_state_def)

lemma collected_filenames:
  "map filename (collected_ratings env job cv_data w) = map fst cv_data"
  using all_ratings_filenames [of env job cv_data w] by (simp add: collected_all)

lemma ranked_sorted:
  "snd (fst (run_matching_and_rating env job cv_data w)) =
     sort_reverse score (collected_ratings env job cv_data w)"
  by (simp add: run_matching_and_rating_def collected_ratings_def sort_reverse_def
      split: prod.splits)

lemma sort_reverse_sorted: "sorted_wrt (\<lambda>a b. f b \<le> f a) (sort_reverse f xs)"
proof -
  have "sorted (map f (sort_key f (rev xs)))" by (rule sorted_sort_key)
  then have "sorted_wrt (\<lambda>a b. f a \<le> f b) (sort_key f (rev xs))"
    by (simp add: sorted_map)
  then show ?thesis
    by (simp add: sort_reverse_def sorted_wrt_rev)
qed

lemma sort_reverse_stable:
  "filter (\<lambda>x. f x = k) (sort_reverse f xs) = filter (\<lambda>x. f x = k) xs"
proof -
  have "filter (\<lambda>x. f x = k) (sort_reverse f xs) =
        rev (filter (\<lambda>x. f x = k) (sort_key f (rev xs)))"
    by (simp add: sort_reverse_def rev_filter)
  also have "\<dots> = rev (filter (\<lambda>x. f x = k) (rev xs))"
    by (simp only: sort_key_stable)
  also have "\<dots> = filter (\<lambda>x. f x = k) xs"
    by (simp add: rev_filter)
  finally show ?thesis .
qed

lemma sort_reverse_mset: "mset (sort_reverse f xs) = mset xs"
  by (simp add: sort_reverse_def)

lemma rating_loop_length:
  "length (cv_ratings (fst (rating_loop env job cands st w))) =
     length (cv_ratings st) + length cands"
  using rating_loop_all [of env job cands st w] all_ratings_flags [of env job cands w]
  by (metis length_append length_map)

lemma three_run:
  "fst (run_matching_and_rating sample ''Requires: Python, 3 yrs'' three_candidates ()) =
     (Some \<lparr>filename = ''B'', score = 95, justification = ''strong''\<rparr>,
      [\<lparr>filename = ''B'', score = 95, justification = ''strong''\<rparr>,
       \<lparr>filename = ''C'', score = 95, justification = ''strong''\<rparr>,
       \<lparr>filename = ''A'', score = 80, justification = ''fair''\<rparr>])"
  by (simp add: run_matching_and_rating_def three_candidates_def initial_state_def
      skipped_def rate_cv_suitability_def sample_simps parse_simps sort_reverse_def Let_def)

text \<open>
  C3. The ranked list is in descending order of score, and the ratings of any one score
  stand in it in the order in which they were collected, which is the order of the
  candidates in the mapping. Candidates A, B and C scored 80, 95 and 95 are ranked B, C, A
  and B is the most suitable.
\<close>

theorem ranked_sorted_and_stable:
  "sorted_wrt (\<lambda>a b. score b \<le> score a)
     (snd (fst (run_matching_and_rating env job cv_data w))) \<and>
   (\<forall>k. filter (\<lambda>r. score r = k) (snd (fst (run_matching_and_rating env job cv_data w))) =
        filter (\<lambda>r. score r = k) (collected_ratings env job cv_data w)) \<and>
   map filename (collected_ratings env job cv_data w) = map fst cv_data \<and>
   fst (run_matching_and_rating sample ''Requires: Python, 3 yrs'' three_candidates ()) =
     (Some \<lparr>filename = ''B'', score = 95, justification = ''strong''\<rparr>,
      [\<lparr>filename = ''B'', score = 95, justification = ''strong''\<rparr>,
       \<lparr>filename = ''C'', score = 95, justification = ''strong''\<rparr>,
       \<lparr>filename = ''A'', score = 80, justification = ''fair''\<rparr>])"
  by (simp add: ranked_sorted sort_reverse_sorted sort_reverse_stable collected_filenames
      three_run)

theorem ranked_sorted_and_stable_witness:
  "sorted_wrt (\<lambda>a b. score b \<le> score a)
     (snd (fst (run_matching_and_rating sample ''job'' failing_candidates ()))) \<and>
   filter (\<lambda>r. score r = 0) (snd (fst (run_matching_and_rating sample ''job'' failing_candidates ()))) =
     filter (\<lambda>r. score r = 0) (collected_ratings sample ''job'' failing_candidates ()) \<and>
   map filename (collected_ratings sample ''job'' failing_candidates ()) = [''A'', ''D'', ''B'']"
  using ranked_sorted_and_stable [of sample "''job''" failing_candidates "()"]
  by (simp add: failing_candidates_def)

text \<open>
  C5. An exception of the scoring service is turned into the rating with score 0 and the
  description of the error; the loop goes on with the candidates behind it; every
  candidate of the mapping gets exactly one rating, and the ranked list is a
  rearrangement of these ratings. The loop has no way to end other than with its result.
\<close>

theorem scoring_failure_is_isolated:
  "(scoring env job p w = (Inl e, w')
      \<longrightarrow> rate_cv_suitability env job p w = ((0, ''Error rating CV: '' @ e), w')) \<and>
   map filename (collected_ratings env job cv_data w) = map fst cv_data \<and>
   mset (snd (fst (run_matching_and_rating env job cv_data w))) =
     mset (collected_ratings env job cv_data w) \<and>
   (rating_loop env job pre initial_state w = (st1, w1) \<and> \<not> skipped cv \<and>
    scoring env job (parsed_info cv) w1 = (Inl e, w2)
      \<longrightarrow> (\<exists>st2. rating_loop env job (pre @ (fn, cv) # post) initial_state w =
                   rating_loop env job post st2 w2 \<and>
                 cv_ratings st2 = cv_ratings st1 @
                   [\<lparr>filename = fn, score = 0, justification = ''Error rating CV: '' @ e\<rparr>]) \<and>
          collected_ratings env job (pre @ (fn, cv) # post) w ! length pre =
            \<lparr>filename = fn, score = 0, justification = ''Error rating CV: '' @ e\<rparr> \<and>
          length (collected_ratings env job (pre @ (fn, cv) # post) w) =
            length pre + 1 + length post)"
proof (intro conjI impI)
  assume "scoring env job p w = (Inl e, w')"
  then show "rate_cv_suitability env job p w = ((0, ''Error rating CV: '' @ e), w')"
    by (rule rate_error)
next
  show "map filename (collected_ratings env job cv_data w) = map fst cv_data"
    by (rule collected_filenames)
next
  show "mset (snd (fst (run_matching_and_rating env job cv_data w))) =
     mset (collected_ratings env job cv_data w)"
    by (simp add: ranked_sorted sort_reverse_mset)
next
  let ?err = "\<lparr>filename = fn, score = 0, justification = ''Error rating CV: '' @ e\<rparr>"
  let ?st1' = "st1\<lparr>cv_ratings := cv_ratings st1 @ [?err]\<rparr>"
  let ?st2 = "if 0 > max_score ?st1'
              then ?st1'\<lparr>max_score := 0, most_suitable_cv_info := Some ?err\<rparr> else ?st1'"
  assume h: "rating_loop env job pre initial_state w = (st1, w1) \<and> \<not> skipped cv \<and>
    scoring env job (parsed_info cv) w1 = (Inl e, w2)"
  then have r: "rate_cv_suitability env job (parsed_info cv) w1 =
      ((0, ''Error rating CV: '' @ e), w2)"
    by (simp add: rate_error)
  with h have step: "rating_loop env job (pre @ (fn, cv) # post) initial_state w =
      rating_loop env job post ?st2 w2"
    by (simp add: rating_loop_append Let_def)
  have cv2: "cv_ratings ?st2 = cv_ratings st1 @ [?err]" by simp
  from step cv2
  show "\<exists>st2. rating_loop env job (pre @ (fn, cv) # post) initial_state w =
           rating_loop env job post st2 w2 \<and> cv_ratings st2 = cv_ratings st1 @ [?err]"
    by blast
  from h have len1: "length (cv_ratings st1) = length pre"
    using rating_loop_length [of env job pre initial_state w]
    by (simp add: initial_state_def)
  have coll: "collected_ratings env job (pre @ (fn, cv) # post) w =
      cv_ratings st1 @ [?err] @ map snd (all_ratings env job post w2)"
    using rating_loop_all [of env job post ?st2 w2] step cv2
    by (simp add: collected_ratings_def)
  from coll len1 show "collected_ratings env job (pre @ (fn, cv) # post) w ! length pre = ?err"
    by (simp add: nth_append)
  show "length (collected_ratings env job (pre @ (fn, cv) # post) w) =
      length pre + 1 + length post"
    using rating_loop_length [of env job "pre @ (fn, cv) # post" initial_state w]
    by (simp add: collected_ratings_def initial_state_def)
qed

theorem scoring_failure_is_isolated_witness:
  "rate_cv_suitability sample ''job'' ''pd'' () = ((0, ''Error rating CV: service down''), ()) \<and>
   collected_ratings sample ''job'' failing_candidates () ! 1 =
     \<lparr>filename = ''D'', score = 0, justification = ''Error rating CV: service down''\<rparr> \<and>
   length (collected_ratings sample ''job'' failing_candidates ()) = 3 \<and>
   map filename (collected_ratings sample ''job'' failing_candidates ()) = [''A'', ''D'', ''B'']"
proof -
  let ?a = "(''A'', \<lparr>text_raw_cv = ''cv of A'', parsed_info = ''pa''\<rparr>)"
  let ?d = "\<lparr>text_raw_cv = ''cv of D'', parsed_info = ''pd''\<rparr>"
  let ?b = "(''B'', \<lparr>text_raw_cv = ''cv of B'', parsed_info = ''pb''\<rparr>)"
  let ?ra = "\<lparr>filename = ''A'', score = 80, justification = ''fair''\<rparr>"
  let ?st1 = "\<lparr>cv_ratings = [?ra], max_score = 80, most_suitable_cv_info = Some ?ra\<rparr>"
  have f: "failing_candidates = [?a] @ (''D'', ?d) # [?b]"
    by (simp add: failing_candidates_def)
  have h1: "rating_loop sample ''job'' [?a] initial_state () = (?st1, ())"
    by (simp add: engine_simps)
  have h2: "\<not> skipped ?d"
    by (simp add: skipped_def)
  have h3: "scoring sample ''job'' (parsed_info ?d) () = (Inl ''service down'', ())"
    by (simp add: sample_simps)
  have h4: "scoring sample ''job'' ''pd'' () = (Inl ''service down'', ())"
    by (simp add: sample_simps)
  from scoring_failure_is_isolated [of sample "''job''" "''pd''" "()" "''service down''" "()"
      failing_candidates "[?a]" ?st1 "()" ?d "()" "''D''" "[?b]"] h1 h2 h3 h4
  show ?thesis
    unfolding f [symmetric] by (simp add: failing_candidates_def)
qed

lemma zip_flags:
  "map fst fl = map P cs \<Longrightarrow>
   map snd (filter (\<lambda>cr. P (fst cr)) (zip cs (map snd fl))) = map snd (filter fst fl)"
proof (induction fl arbitrary: cs)
  case Nil
  then show ?case by simp
next
  case (Cons x fl)
  then obtain c cs' where cs: "cs = c # cs'" by (cases cs) auto
  with Cons show ?case by (cases x) auto
qed

lemma scored_all:
  "scored_ratings env job cv_data w = map snd (filter fst (all_ratings env job cv_data w))"
  unfolding scored_ratings_def collected_all
  using zip_flags [of "all_ratings env job cv_data w" "\<lambda>c. \<not> skipped (snd c)" cv_data]
    all_ratings_flags [of env job cv_data w]
  by simp

lemma track_cases:
  "track rs (m, t) = (m', t') \<Longrightarrow>
     (m' = m \<and> t' = t \<and> (\<forall>r\<in>set rs. score r \<le> m)) \<or>
     (\<exists>xs b ys. rs = xs @ b # ys \<and> t' = Some b \<and> m' = score b \<and> m < score b \<and>
        (\<forall>r\<in>set xs. score r < score b) \<and> (\<forall>r\<in>set ys. score r \<le> score b))"
proof (induction rs arbitrary: m t)
  case Nil
  then show ?case by simp
next
  case (Cons r rs)
  show ?case
  proof (cases "score r > m")
    case True
    with Cons.prems have "track rs (score r, Some r) = (m', t')" by simp
    from Cons.IH [OF this] show ?thesis
    proof (elim disjE exE conjE)
      assume "m' = score r" "t' = Some r" "\<forall>x\<in>set rs. score x \<le> score r"
      with True have "r # rs = [] @ r # rs \<and> t' = Some r \<and> m' = score r \<and> m < score r \<and>
        (\<forall>x\<in>set []. score x < score r) \<and> (\<forall>x\<in>set rs. score x \<le> score r)"
        by simp
      then show ?thesis by blast
    next
      fix xs b ys
      assume "rs = xs @ b # ys" "t' = Some b" "m' = score b" "score r < score b"
        "\<forall>x\<in>set xs. score x < score b" "\<forall>x\<in>set ys. score x \<le> score b"
      with True have "r # rs = (r # xs) @ b # ys \<and> t' = Some b \<and> m' = score b \<and> m < score b \<and>
        (\<forall>x\<in>set (r # xs). score x < score b) \<and> (\<forall>x\<in>set ys. score x \<le> score b)"
        by simp
      then show ?thesis by blast
    qed
  next
    case False
    with Cons.prems have "track rs (m, t) = (m', t')" by simp
    from Cons.IH [OF this] show ?thesis
    proof (elim disjE exE conjE)
      assume "m' = m" "t' = t" "\<forall>x\<in>set rs. score x \<le> m"
      with False show ?thesis by simp
    next
      fix xs b ys
      assume "rs = xs @ b # ys" "t' = Some b" "m' = score b" "m < score b"
        "\<forall>x\<in>set xs. score x < score b" "\<forall>x\<in>set ys. score x \<le> score b"
      with False have "r # rs = (r # xs) @ b # ys \<and> t' = Some b \<and> m' = score b \<and> m < score b \<and>
        (\<forall>x\<in>set (r # xs). score x < score b) \<and> (\<forall>x\<in>set ys. score x \<le> score b)"
        by simp
      then show ?thesis by blast
    qed
  qed
qed

lemma top_is_track:
  "fst (fst (run_matching_and_rating env job cv_data w)) =
     snd (track (scored_ratings env job cv_data w) (- 1, None))"
proof -
  obtain st w' where l: "rating_loop env job cv_data initial_state w = (st, w')"
    by (metis prod.exhaust)
  from rating_loop_all [of env job cv_data initial_state w] l
  have "(max_score st, most_suitable_cv_info st) =
      track (scored_ratings env job cv_data w) (- 1, None)"
    by (simp add: scored_all initial_state_def)
  then have "most_suitable_cv_info st = snd (track (scored_ratings env job cv_data w) (- 1, None))"
    by (metis snd_conv)
  with l show ?thesis
    by (auto simp: run_matching_and_rating_def)
qed

lemma scored_range: "r \<in> set (scored_ratings env job cv_data w) \<Longrightarrow> 0 \<le> score r"
  using all_ratings_range [of True r env job cv_data w]
  by (auto simp: scored_all)

lemma top_cases:
  "(fst (fst (run_matching_and_rating env job cv_data w)) = None \<and>
    scored_ratings env job cv_data w = []) \<or>
   (\<exists>xs b ys. scored_ratings env job cv_data w = xs @ b # ys \<and>
      fst (fst (run_matching_and_rating env job cv_data w)) = Some b \<and>
      (\<forall>r\<in>set xs. score r < score b) \<and> (\<forall>r\<in>set ys. score r \<le> score b))"
proof -
  obtain m' t' where tr: "track (scored_ratings env job cv_data w) (- 1, None) = (m', t')"
    by (metis prod.exhaust)
  then have top: "fst (fst (run_matching_and_rating env job cv_data w)) = t'"
    by (simp add: top_is_track)
  from track_cases [OF tr] show ?thesis
  proof (elim disjE exE conjE)
    assume a: "t' = None" "\<forall>r\<in>set (scored_ratings env job cv_data w). score r \<le> - 1"
    have "scored_ratings env job cv_data w = []"
    proof (cases "scored_ratings env job cv_data w")
      case Nil
      then show ?thesis .
    next
      case (Cons r rs)
      then have "r \<in> set (scored_ratings env job cv_data w)" by simp
      with a(2) scored_range [of r env job cv_data w] show ?thesis by fastforce
    qed
    with a(1) top show ?thesis by simp
  next
    fix xs b ys
    assume "scored_ratings env job cv_data w = xs @ b # ys" "t' = Some b"
      "\<forall>r\<in>set xs. score r < score b" "\<forall>r\<in>set ys. score r \<le> score b"
    with top show ?thesis by blast
  qed
qed

lemma sort_reverse_set: "set (sort_reverse f xs) = set xs"
  by (simp add: sort_reverse_def)

lemma hd_sort_reverse:
  assumes xs: "xs = as @ t # bs"
    and as: "\<forall>r\<in>set as. f r < f t"
    and bs: "\<forall>r\<in>set bs. f r \<le> f t"
  shows "hd (sort_reverse f xs) = t"
proof -
  let ?ys = "sort_reverse f xs"
  have "set ?ys = set xs" by (rule sort_reverse_set)
  with xs have tin: "t \<in> set ?ys" by simp
  then obtain h tl where ys: "?ys = h # tl" by (cases ?ys) auto
  have "h \<in> set xs" using sort_reverse_set [of f xs] ys by (metis list.set_intros(1))
  with xs as bs have le: "f h \<le> f t" by auto
  have "sorted_wrt (\<lambda>a b. f b \<le> f a) (h # tl)"
    using sort_reverse_sorted [of f xs] ys by simp
  with tin ys have ge: "f t \<le> f h" by auto
  from le ge have eq: "f h = f t" by simp
  have "filter (\<lambda>x. f x = f t) ?ys = filter (\<lambda>x. f x = f t) xs"
    by (rule sort_reverse_stable)
  also have "\<dots> = t # filter (\<lambda>x. f x = f t) bs"
    using xs as by (auto simp: filter_empty_conv)
  finally have "filter (\<lambda>x. f x = f t) (h # tl) = t # filter (\<lambda>x. f x = f t) bs"
    using ys by simp
  with eq have "h = t" by simp
  with ys show ?thesis by simp
qed

lemma flagged_split:
  "map snd (filter fst fl) = xs @ t # ys \<Longrightarrow>
   \<exists>as bs. fl = as @ (True, t) # bs \<and> map snd (filter fst as) = xs \<and>
           map snd (filter fst bs) = ys"
proof (induction fl arbitrary: xs)
  case Nil
  then show ?case by simp
next
  case (Cons x fl)
  obtain b r where x: "x = (b, r)" by (cases x)
  show ?case
  proof (cases b)
    case False
    with x Cons.prems have "map snd (filter fst fl) = xs @ t # ys" by simp
    from Cons.IH [OF this] obtain as bs where
      "fl = as @ (True, t) # bs" "map snd (filter fst as) = xs" "map snd (filter fst bs) = ys"
      by blast
    with x False have "x # fl = (x # as) @ (True, t) # bs \<and>
        map snd (filter fst (x # as)) = xs \<and> map snd (filter fst bs) = ys"
      by simp
    then show ?thesis by blast
  next
    case True
    with x Cons.prems have p: "r # map snd (filter fst fl) = xs @ t # ys" by simp
    show ?thesis
    proof (cases xs)
      case Nil
      with p have "r = t" "map snd (filter fst fl) = ys" by simp_all
      with x True Nil have "x # fl = [] @ (True, t) # fl \<and>
          map snd (filter fst []) = xs \<and> map snd (filter fst fl) = ys"
        by simp
      then show ?thesis by blast
    next
      case (Cons x' xs')
      with p have "r = x'" "map snd (filter fst fl) = xs' @ t # ys" by simp_all
      from Cons.IH [OF this(2)] obtain as bs where
        "fl = as @ (True, t) # bs" "map snd (filter fst as) = xs'" "map snd (filter fst bs) = ys"
        by blast
      with x True Cons \<open>r = x'\<close> have "x # fl = (x # as) @ (True, t) # bs \<and>
          map snd (filter fst (x # as)) = xs \<and> map snd (filter fst bs) = ys"
        by simp
      then show ?thesis by blast
    qed
  qed
qed

lemma top_is_head:
  assumes top: "fst (fst (run_matching_and_rating env job cv_data w)) = Some t"
    and cond: "(\<exists>r\<in>set (scored_ratings env job cv_data w). 0 < score r) \<or>
               (cv_data \<noteq> [] \<and> \<not> skipped (snd (hd cv_data)))"
  shows "hd (snd (fst (run_matching_and_rating env job cv_data w))) = t"
proof -
  let ?fl = "all_ratings env job cv_data w"
  from top_cases [of env job cv_data w] top obtain xs ys where
    sc: "scored_ratings env job cv_data w = xs @ t # ys"
    and xs: "\<forall>r\<in>set xs. score r < score t" and ys: "\<forall>r\<in>set ys. score r \<le> score t"
    by auto
  from sc have "map snd (filter fst ?fl) = xs @ t # ys" by (simp add: scored_all)
  from flagged_split [OF this] obtain as bs where
    fl: "?fl = as @ (True, t) # bs" and as: "map snd (filter fst as) = xs"
    and bs: "map snd (filter fst bs) = ys"
    by blast
  have rng: "\<And>b r. (b, r) \<in> set ?fl \<Longrightarrow> 0 \<le> score r \<and> (\<not> b \<longrightarrow> score r = 0)"
  proof -
    fix b r assume "(b, r) \<in> set ?fl"
    from all_ratings_range [OF this] show "0 \<le> score r \<and> (\<not> b \<longrightarrow> score r = 0)"
      by (auto simp: skipped_rating_def) (metis rating.select_convs(2))
  qed
  have t0: "0 \<le> score t" using rng [of True t] fl by simp
  have bs_le: "\<forall>r\<in>set (map snd bs). score r \<le> score t"
  proof
    fix r assume "r \<in> set (map snd bs)"
    then obtain b where br: "(b, r) \<in> set bs" by auto
    show "score r \<le> score t"
    proof (cases b)
      case True
      with br have "r \<in> set (map snd (filter fst bs))" by force
      with bs ys show ?thesis by simp
    next
      case False
      with br fl rng [of b r] t0 show ?thesis by simp
    qed
  qed
  have as_lt: "\<forall>r\<in>set (map snd as). score r < score t"
  proof (cases "0 < score t")
    case True
    show ?thesis
    proof
      fix r assume "r \<in> set (map snd as)"
      then obtain b where br: "(b, r) \<in> set as" by auto
      show "score r < score t"
      proof (cases b)
        case True
        with br have "r \<in> set (map snd (filter fst as))" by force
        with as xs show ?thesis by simp
      next
        case False
        with br fl rng [of b r] \<open>0 < score t\<close> show ?thesis by simp
      qed
    qed
  next
    case False
    with t0 have tz: "score t = 0" by simp
    have no_pos: "\<not> (\<exists>r\<in>set (scored_ratings env job cv_data w). 0 < score r)"
    proof
      assume "\<exists>r\<in>set (scored_ratings env job cv_data w). 0 < score r"
      then obtain r where "r \<in> set (xs @ t # ys)" "0 < score r" using sc by auto
      with xs ys tz show False by auto
    qed
    with cond have first: "cv_data \<noteq> []" "\<not> skipped (snd (hd cv_data))" by simp_all
    have "as = []"
    proof (cases as)
      case Nil
      then show ?thesis .
    next
      case (Cons a as')
      with fl have "fst (hd ?fl) = fst a" by simp
      moreover from first all_ratings_flags [of env job cv_data w]
      have "fst (hd ?fl) = True"
        by (cases cv_data; cases ?fl) auto
      ultimately have "fst a" by simp
      with Cons have "snd a \<in> set (map snd (filter fst as))" by simp
      with as xs have "score (snd a) < score t" by simp
      moreover have "0 \<le> score (snd a)"
        using rng [of "fst a" "snd a"] fl Cons by simp
      ultimately show ?thesis using tz by simp
    qed
    then show ?thesis by simp
  qed
  have "collected_ratings env job cv_data w = map snd as @ t # map snd bs"
    using fl by (simp add: collected_all)
  from hd_sort_reverse [OF this as_lt bs_le] show ?thesis
    by (simp add: ranked_sorted)
qed

lemma scored_empty_iff:
  "scored_ratings env job cv_data w = [] \<longleftrightarrow> (\<forall>c\<in>set cv_data. skipped (snd c))"
proof -
  have "scored_ratings env job cv_data w = [] \<longleftrightarrow>
        (\<forall>x\<in>set (all_ratings env job cv_data w). \<not> fst x)"
    by (simp add: scored_all filter_empty_conv)
  also have "\<dots> \<longleftrightarrow> (\<forall>b\<in>set (map fst (all_ratings env job cv_data w)). \<not> b)"
    by simp
  also have "\<dots> \<longleftrightarrow> (\<forall>c\<in>set cv_data. skipped (snd c))"
    by (simp add: all_ratings_flags)
  finally show ?thesis .
qed

lemma ranked_length:
  "length (snd (fst (run_matching_and_rating env job cv_data w))) = length cv_data"
  using rating_loop_length [of env job cv_data initial_state w]
  by (simp add: ranked_sorted sort_reverse_def collected_ratings_def initial_state_def)

text \<open>
  C1, as the code has it. Over a mapping that is not empty the ranked list is not empty
  and holds one rating per candidate. The most suitable rating is none exactly when
  every candidate was skipped; otherwise it is the earliest rating of the highest score
  among the candidates that were scored. It is the first element of the ranked list as
  soon as a scored candidate has a positive score or the first candidate of the mapping
  was scored.
\<close>

theorem top_is_best_scored_candidate:
  "(snd (fst (run_matching_and_rating env job cv_data w)) \<noteq> [] \<longleftrightarrow> cv_data \<noteq> []) \<and>
   length (snd (fst (run_matching_and_rating env job cv_data w))) = length cv_data \<and>
   (fst (fst (run_matching_and_rating env job cv_data w)) = None \<longleftrightarrow>
      (\<forall>c\<in>set cv_data. skipped (snd c))) \<and>
   (\<forall>t. fst (fst (run_matching_and_rating env job cv_data w)) = Some t \<longrightarrow>
      (\<exists>xs ys. scored_ratings env job cv_data w = xs @ t # ys \<and>
         (\<forall>r\<in>set xs. score r < score t) \<and> (\<forall>r\<in>set ys. score r \<le> score t))) \<and>
   ((\<exists>r\<in>set (scored_ratings env job cv_data w). 0 < score r) \<or>
    (cv_data \<noteq> [] \<and> \<not> skipped (snd (hd cv_data)))
      \<longrightarrow> fst (fst (run_matching_and_rating env job cv_data w)) =
            Some (hd (snd (fst (run_matching_and_rating env job cv_data w)))))"
proof (intro conjI allI impI)
  show "(snd (fst (run_matching_and_rating env job cv_data w)) \<noteq> []) = (cv_data \<noteq> [])"
    using ranked_length [of env job cv_data w] by (metis length_0_conv)
next
  show "length (snd (fst (run_matching_and_rating env job cv_data w))) = length cv_data"
    by (rule ranked_length)
next
  show "(fst (fst (run_matching_and_rating env job cv_data w)) = None) =
      (\<forall>c\<in>set cv_data. skipped (snd c))"
    using top_cases [of env job cv_data w] scored_empty_iff [of env job cv_data w]
    by auto
next
  fix t assume "fst (fst (run_matching_and_rating env job cv_data w)) = Some t"
  with top_cases [of env job cv_data w]
  show "\<exists>xs ys. scored_ratings env job cv_data w = xs @ t # ys \<and>
         (\<forall>r\<in>set xs. score r < score t) \<and> (\<forall>r\<in>set ys. score r \<le> score t)"
    by auto
next
  assume cond: "(\<exists>r\<in>set (scored_ratings env job cv_data w). 0 < score r) \<or>
    (cv_data \<noteq> [] \<and> \<not> skipped (snd (hd cv_data)))"
  then have "\<not> (\<forall>c\<in>set cv_data. skipped (snd c))"
  proof
    assume "\<exists>r\<in>set (scored_ratings env job cv_data w). 0 < score r"
    then have "scored_ratings env job cv_data w \<noteq> []" by auto
    then show ?thesis by (simp add: scored_empty_iff)
  next
    assume "cv_data \<noteq> [] \<and> \<not> skipped (snd (hd cv_data))"
    then show ?thesis by (cases cv_data) auto
  qed
  then have "scored_ratings env job cv_data w \<noteq> []" by (simp add: scored_empty_iff)
  with top_cases [of env job cv_data w] obtain t where
    t: "fst (fst (run_matching_and_rating env job cv_data w)) = Some t"
    by auto
  from top_is_head [OF t cond] t
  show "fst (fst (run_matching_and_rating env job cv_data w)) =
      Some (hd (snd (fst (run_matching_and_rating env job cv_data w))))"
    by simp
qed

theorem top_is_best_scored_candidate_witness:
  "fst (fst (run_matching_and_rating sample ''job'' mixed_candidates ())) =
     Some (hd (snd (fst (run_matching_and_rating sample ''job'' mixed_candidates ())))) \<and>
   length (snd (fst (run_matching_and_rating sample ''job'' mixed_candidates ()))) = 3 \<and>
   scored_ratings sample ''job'' mixed_candidates () =
     [\<lparr>filename = ''A'', score = 80, justification = ''fair''\<rparr>,
      \<lparr>filename = ''B'', score = 95, justification = ''strong''\<rparr>]"
proof -
  have s: "scored_ratings sample ''job'' mixed_candidates () =
     [\<lparr>filename = ''A'', score = 80, justification = ''fair''\<rparr>,
      \<lparr>filename = ''B'', score = 95, justification = ''strong''\<rparr>]"
    by (simp add: eval_simps mixed_candidates_def)
  then have c: "\<exists>r\<in>set (scored_ratings sample ''job'' mixed_candidates ()). 0 < score r"
    by simp
  from top_is_best_scored_candidate [of sample "''job''" mixed_candidates "()"] c s
  show ?thesis by (simp add: mixed_candidates_def)
qed

text \<open>
  C1 as it is stated fails on two mappings: when the only candidate was skipped the ranked
  list has an element and there is no most suitable rating; when a skipped candidate
  stands before a candidate scored 0, the ranked list begins with the skipped one and
  the most suitable rating is the other.
\<close>

theorem top_is_head_counterexample:
  "fst (fst (run_matching_and_rating sample ''job'' [(''x.jpg'', failed_cv)] ())) = None \<and>
   snd (fst (run_matching_and_rating sample ''job'' [(''x.jpg'', failed_cv)] ())) =
     [skipped_rating ''x.jpg''] \<and>
   fst (fst (run_matching_and_rating sample ''job'' zero_candidates ())) =
     Some \<lparr>filename = ''E'', score = 0, justification = no_justification\<rparr> \<and>
   hd (snd (fst (run_matching_and_rating sample ''job'' zero_candidates ()))) =
     skipped_rating ''x.jpg'' \<and>
   fst (fst (run_matching_and_rating sample ''job'' zero_candidates ())) \<noteq>
     Some (hd (snd (fst (run_matching_and_rating sample ''job'' zero_candidates ()))))"
  by (simp add: eval_simps zero_candidates_def contains.simps)

subsection \<open>Skipped candidates and the calls of the scoring service\<close>

lemmas ingest_simps = run_cv_processing_def process_document_to_text_list_def load_images_def
  convert_pdf_to_images_def get_text_from_image_data_def parse_cv_skills_and_experience_def
  endswith_def py_lower_def py_lower_char_def basename_def page_sep_def

lemma rate_recording:
  "rate_cv_suitability (recording env) job p (w, log) =
     (case rate_cv_suitability env job p w of
        (r, w') \<Rightarrow> (r, (w', log @ [Call_scoring job p])))"
  by (simp add: rate_cv_suitability_def recording_def logged_def
      split: prod.splits sum.splits option.splits)

lemma rating_loop_recording:
  "rating_loop (recording env) job cands st (w, log) =
     (case rating_loop env job cands st w of
        (st', w') \<Rightarrow>
          (st', (w', log @ map (\<lambda>c. Call_scoring job (parsed_info (snd c)))
                            (filter (\<lambda>c. \<not> skipped (snd c)) cands))))"
proof (induction cands arbitrary: st w log)
  case Nil
  show ?case by simp
next
  case (Cons c cands)
  obtain fn cv where c: "c = (fn, cv)" by (cases c)
  show ?case
  proof (cases "skipped cv")
    case True
    with c Cons.IH show ?thesis by simp
  next
    case False
    obtain sc just w' where "rate_cv_suitability env job (parsed_info cv) w = ((sc, just), w')"
      by (metis prod.exhaust)
    with c False Cons.IH show ?thesis
      by (simp add: rate_recording Let_def split: prod.splits)
  qed
qed

lemma run_recording:
  "run_matching_and_rating (recording env) job cv_data (w, log) =
     (case run_matching_and_rating env job cv_data w of
        (res, w') \<Rightarrow>
          (res, (w', log @ map (\<lambda>c. Call_scoring job (parsed_info (snd c)))
                             (filter (\<lambda>c. \<not> skipped (snd c)) cv_data))))"
  by (simp add: run_matching_and_rating_def rating_loop_recording split: prod.splits)

lemma all_ratings_skipped:
  "i < length cands \<Longrightarrow> skipped (snd (cands ! i)) \<Longrightarrow>
   all_ratings env job cands w ! i = (False, skipped_rating (fst (cands ! i)))"
proof (induction cands arbitrary: i w)
  case Nil
  then show ?case by simp
next
  case (Cons c cands)
  obtain fn cv where c: "c = (fn, cv)" by (cases c)
  show ?case
  proof (cases i)
    case 0
    with c Cons.prems show ?thesis by simp
  next
    case (Suc j)
    with c Cons show ?thesis by (auto split: prod.splits)
  qed
qed

lemma all_ratings_length: "length (all_ratings env job cands w) = length cands"
  using all_ratings_flags [of env job cands w] by (metis length_map)

lemma contains_iff: "contains p s \<longleftrightarrow> (\<exists>a b. s = a @ p @ b)"
proof (induction s)
  case Nil
  show ?case by (auto simp: starts_with_iff)
next
  case (Cons c s)
  show ?case
  proof
    assume "contains p (c # s)"
    then consider "starts_with p (c # s)" | "contains p s" by auto
    then show "\<exists>a b. c # s = a @ p @ b"
    proof cases
      case 1
      then obtain r where "c # s = p @ r" by (auto simp: starts_with_iff)
      then have "c # s = [] @ p @ r" by simp
      then show ?thesis by blast
    next
      case 2
      with Cons.IH obtain a b where "s = a @ p @ b" by blast
      then have "c # s = (c # a) @ p @ b" by simp
      then show ?thesis by blast
    qed
  next
    assume "\<exists>a b. c # s = a @ p @ b"
    then obtain a b where ab: "c # s = a @ p @ b" by blast
    show "contains p (c # s)"
    proof (cases a)
      case Nil
      with ab have "starts_with p (c # s)" by (simp add: starts_with_iff)
      then show ?thesis by simp
    next
      case (Cons a0 a')
      with ab have "s = a' @ p @ b" by simp
      with Cons.IH have "contains p s" by blast
      then show ?thesis by simp
    qed
  qed
qed

text \<open>
  What the test of line 443 does. A candidate is skipped when its profile is empty or
  contains \<^verbatim>\<open>No text extracted\<close>, which holds of the entry stored for a document
  without text. A skipped candidate gets the rating with score 0 and the justification
  \<^verbatim>\<open>Skipped due to failed text/profile extraction.\<close>, and the calls of the scoring
  service that a run records are those for the candidates the test lets through, in the
  order of the mapping. Recording the calls does not change the result.
\<close>

lemma skipped_candidates_are_not_scored:
  "(\<forall>i<length cv_data. skipped (snd (cv_data ! i)) \<longrightarrow>
      collected_ratings env job cv_data w ! i = skipped_rating (fst (cv_data ! i))) \<and>
   score (skipped_rating fn) = 0 \<and>
   justification (skipped_rating fn) = ''Skipped due to failed text/profile extraction.'' \<and>
   fst (run_matching_and_rating (recording env) job cv_data (w, [])) =
     fst (run_matching_and_rating env job cv_data w) \<and>
   snd (snd (run_matching_and_rating (recording env) job cv_data (w, []))) =
     map (\<lambda>c. Call_scoring job (parsed_info (snd c)))
       (filter (\<lambda>c. \<not> skipped (snd c)) cv_data) \<and>
   skipped failed_cv \<and>
   (skipped cv \<longleftrightarrow>
      parsed_info cv = [] \<or> (\<exists>a b. parsed_info cv = a @ ''No text extracted'' @ b))"
proof (intro conjI allI impI)
  fix i assume "i < length cv_data" "skipped (snd (cv_data ! i))"
  then show "collected_ratings env job cv_data w ! i = skipped_rating (fst (cv_data ! i))"
    by (simp add: collected_all all_ratings_length all_ratings_skipped)
next
  show "score (skipped_rating fn) = 0"
    "justification (skipped_rating fn) = ''Skipped due to failed text/profile extraction.''"
    by (simp_all add: skipped_rating_def)
  show "fst (run_matching_and_rating (recording env) job cv_data (w, [])) =
     fst (run_matching_and_rating env job cv_data w)"
    by (simp add: run_recording split: prod.splits)
  show "snd (snd (run_matching_and_rating (recording env) job cv_data (w, []))) =
     map (\<lambda>c. Call_scoring job (parsed_info (snd c)))
       (filter (\<lambda>c. \<not> skipped (snd c)) cv_data)"
    by (simp add: run_recording split: prod.splits)
  show "skipped failed_cv"
    by (simp add: skipped_def failed_cv_def)
  show "skipped cv \<longleftrightarrow>
      parsed_info cv = [] \<or> (\<exists>a b. parsed_info cv = a @ ''No text extracted'' @ b)"
    by (simp add: skipped_def contains_iff)
qed

lemma skipped_candidates_example:
  "collected_ratings sample ''job'' mixed_candidates () ! 0 = skipped_rating ''x.jpg'' \<and>
   snd (snd (run_matching_and_rating (recording sample) ''job'' mixed_candidates ((), []))) =
     [Call_scoring ''job'' ''pa'', Call_scoring ''job'' ''pb'']"
proof -
  have l: "0 < length mixed_candidates" by (simp add: mixed_candidates_def)
  have s: "skipped (snd (mixed_candidates ! 0))"
    by (simp add: mixed_candidates_def skipped_def failed_cv_def)
  from skipped_candidates_are_not_scored [of mixed_candidates sample "''job''" "()"] l s
  show ?thesis
    by (simp add: mixed_candidates_def skipped_def failed_cv_def)
qed

text \<open>
  C2. The claim asks that a candidate whose profile call failed be skipped: score 0, the
  justification of a skipped candidate, no call of the scoring service. The code does
  otherwise. The profile call for \<^verbatim>\<open>scan.png\<close> raises; the batch processing stores the
  description of the error, \<^verbatim>\<open>Error parsing CV: quota\<close>, as the profile of the
  candidate; that text is neither empty nor holds \<^verbatim>\<open>No text extracted\<close>, so the test
  of line 443 lets the candidate through, the scoring service is called with the error
  text, and the rating is the 50 the service answers.
\<close>

theorem profile_failure_is_scored:
  "profile_cv sample ''Carol'' () = (Inl ''quota'', ()) \<and>
   fst (run_cv_processing sample [''scan.png''] ()) = quota_candidates \<and>
   \<not> skipped (snd (hd quota_candidates)) \<and>
   snd (fst (run_matching_and_rating (recording sample) ''job'' quota_candidates ((), []))) =
     [\<lparr>filename = ''scan.png'', score = 50, justification = no_justification\<rparr>] \<and>
   snd (fst (run_matching_and_rating (recording sample) ''job'' quota_candidates ((), []))) \<noteq>
     [skipped_rating ''scan.png''] \<and>
   snd (snd (run_matching_and_rating (recording sample) ''job'' quota_candidates ((), []))) =
     [Call_scoring ''job'' ''Error parsing CV: quota'']"
  by (simp add: eval_simps ingest_simps quota_candidates_def recording_def logged_def)

subsection \<open>The raw text of a document\<close>

lemma extract_pages_texts:
  "fst (extract_pages env imgs acc w) = acc @ page_texts env imgs w"
  by (induction imgs arbitrary: acc w) (auto split: prod.splits)

lemma page_texts_length: "length (page_texts env imgs w) = length imgs"
  by (induction imgs arbitrary: w) (auto split: prod.splits)

lemma page_texts_map:
  "(\<forall>img w. fst (get_text_from_image_data env img w) = f img) \<Longrightarrow>
   page_texts env imgs w = map f imgs"
proof (induction imgs arbitrary: w)
  case Nil
  show ?case by simp
next
  case (Cons img imgs)
  obtain t w' where g: "get_text_from_image_data env img w = (t, w')" by (metis prod.exhaust)
  from Cons.prems have "fst (get_text_from_image_data env img w) = f img" by blast
  with g have "t = f img" by simp
  with g Cons show ?case by simp
qed

lemma py_join_length:
  "xs \<noteq> [] \<Longrightarrow>
   length (py_join sep xs) = sum_list (map length xs) + (length xs - 1) * length sep"
  by (induction sep xs rule: py_join.induct) auto

lemma process_one_file:
  "process_document_to_text_list env [file_path] single w =
     (case load_images env file_path w of
        (None, w1) \<Rightarrow> ([], w1)
      | (Some imgs, w1) \<Rightarrow>
          (py_join page_sep (page_texts env imgs w1), snd (extract_pages env imgs [] w1)))"
proof -
  obtain r w1 where l: "load_images env file_path w = (r, w1)" by (metis prod.exhaust)
  show ?thesis
  proof (cases r)
    case None
    with l show ?thesis by (simp add: process_document_to_text_list_def)
  next
    case (Some imgs)
    obtain ts w2 where e: "extract_pages env imgs [] w1 = (ts, w2)" by (metis prod.exhaust)
    then have "ts = page_texts env imgs w1"
      using extract_pages_texts [of env imgs "[]" w1] by simp
    with l Some e show ?thesis by (simp add: process_document_to_text_list_def)
  qed
qed

text \<open>
  C6. The raw text of one document is the texts of its page images, in page order,
  joined by two line feeds: one segment per page, as many segments as pages. A page for
  which the service raises, or answers nothing, gives the empty segment. With a service
  that answers by the image alone the segments are the texts of the pages, image by
  image. A file that cannot be read has no pages and the empty text.
\<close>

theorem raw_text_is_joined_pages:
  "(load_images env file_path w = (Some imgs, w1) \<longrightarrow>
      fst (process_document_to_text_list env [file_path] single w) =
        py_join page_sep (page_texts env imgs w1) \<and>
      length (page_texts env imgs w1) = length imgs \<and>
      ((\<forall>img w. fst (get_text_from_image_data env img w) = f img)
         \<longrightarrow> page_texts env imgs w1 = map f imgs)) \<and>
   (load_images env file_path w = (None, w1) \<longrightarrow>
      process_document_to_text_list env [file_path] single w = ([], w1)) \<and>
   page_texts env (img # rest) w =
     fst (get_text_from_image_data env img w) #
       page_texts env rest (snd (get_text_from_image_data env img w)) \<and>
   (vision env img w = (Inl e, w') \<longrightarrow> get_text_from_image_data env img w = ([], w')) \<and>
   (vision env img w = (Inr None, w') \<longrightarrow> get_text_from_image_data env img w = ([], w')) \<and>
   (vision env img w = (Inr (Some parts), w')
      \<longrightarrow> get_text_from_image_data env img w = (concat parts, w')) \<and>
   (ts \<noteq> [] \<longrightarrow>
      length (py_join page_sep ts) = sum_list (map length ts) + 2 * (length ts - 1))"
proof (intro conjI impI)
  assume l: "load_images env file_path w = (Some imgs, w1)"
  then show "fst (process_document_to_text_list env [file_path] single w) =
        py_join page_sep (page_texts env imgs w1)"
    by (simp add: process_one_file)
  show "length (page_texts env imgs w1) = length imgs"
    by (rule page_texts_length)
  assume "\<forall>img w. fst (get_text_from_image_data env img w) = f img"
  then show "page_texts env imgs w1 = map f imgs"
    by (rule page_texts_map)
next
  assume "load_images env file_path w = (None, w1)"
  then show "process_document_to_text_list env [file_path] single w = ([], w1)"
    by (simp add: process_one_file)
next
  show "page_texts env (img # rest) w =
     fst (get_text_from_image_data env img w) #
       page_texts env rest (snd (get_text_from_image_data env img w))"
    by (simp split: prod.splits)
next
  assume "vision env img w = (Inl e, w')"
  then show "get_text_from_image_data env img w = ([], w')"
    by (simp add: get_text_from_image_data_def)
next
  assume "vision env img w = (Inr None, w')"
  then show "get_text_from_image_data env img w = ([], w')"
    by (simp add: get_text_from_image_data_def)
next
  assume "vision env img w = (Inr (Some parts), w')"
  then show "get_text_from_image_data env img w = (concat parts, w')"
    by (simp add: get_text_from_image_data_def)
next
  assume "ts \<noteq> []"
  then show "length (py_join page_sep ts) = sum_list (map length ts) + 2 * (length ts - 1)"
    by (simp add: py_join_length page_sep_def)
qed


theorem raw_text_is_joined_pages_witness:
  "fst (process_document_to_text_list sample [''a/cv.pdf''] False ()) =
     ''Alice Python'' @ page_sep @ [] \<and>
   page_texts sample [''A1'', ''A2''] () = [''Alice Python'', []] \<and>
   get_text_from_image_data sample ''A2'' () = ([], ()) \<and>
   process_document_to_text_list sample [''x.jpg''] False () = ([], ())"
proof -
  have l: "load_images sample ''a/cv.pdf'' () = (Some [''A1'', ''A2''], ())"
    by (simp add: ingest_simps sample_simps)
  have n: "load_images sample ''x.jpg'' () = (None, ())"
    by (simp add: ingest_simps sample_simps)
  have v: "vision sample ''A2'' () = (Inl ''timeout'', ())"
    by (simp add: sample_simps)
  have p: "page_texts sample [''A1'', ''A2''] () = [''Alice Python'', []]"
    by (simp add: ingest_simps sample_simps)
  from raw_text_is_joined_pages [where env = sample and file_path = "''a/cv.pdf''" and w = "()"
      and imgs = "[''A1'', ''A2'']" and ?w1.0 = "()" and single = False]
    l p
  have a: "fst (process_document_to_text_list sample [''a/cv.pdf''] False ()) =
     ''Alice Python'' @ page_sep @ []"
    by simp
  from raw_text_is_joined_pages [where env = sample and file_path = "''x.jpg''" and w = "()"
      and ?w1.0 = "()" and single = False] n
  have b: "process_document_to_text_list sample [''x.jpg''] False () = ([], ())"
    by simp
  from raw_text_is_joined_pages [where env = sample and img = "''A2''" and w = "()"
      and e = "''timeout''" and w' = "()"] v
  have c: "get_text_from_image_data sample ''A2'' () = ([], ())"
    by blast
  from a b c p show ?thesis by simp
qed

subsection \<open>The CV batch: documents without text\<close>

lemma cv_loop_step:
  "\<exists>entry w'. cv_loop env (f # rest) d w = cv_loop env rest (dict_set d (basename f) entry) w'"
proof -
  obtain raw w1 where p: "process_document_to_text_list env [f] False w = (raw, w1)"
    by (metis prod.exhaust)
  show ?thesis
  proof (cases "py_strip raw = []")
    case True
    with p have "cv_loop env (f # rest) d w = cv_loop env rest (dict_set d (basename f) failed_cv) w1"
      by simp
    then show ?thesis by blast
  next
    case False
    obtain parsed w2 where "parse_cv_skills_and_experience env raw w1 = (parsed, w2)"
      by (metis prod.exhaust)
    with p False have "cv_loop env (f # rest) d w =
        cv_loop env rest (dict_set d (basename f) \<lparr>text_raw_cv = raw, parsed_info = parsed\<rparr>) w2"
      by simp
    then show ?thesis by blast
  qed
qed

lemma cv_loop_append:
  "cv_loop env (xs @ ys) d w =
     (case cv_loop env xs d w of (d', w') \<Rightarrow> cv_loop env ys d' w')"
proof (induction xs arbitrary: d w)
  case Nil
  show ?case by simp
next
  case (Cons f xs)
  obtain raw w1 where p: "process_document_to_text_list env [f] False w = (raw, w1)"
    by (metis prod.exhaust)
  obtain parsed w2 where q: "parse_cv_skills_and_experience env raw w1 = (parsed, w2)"
    by (metis prod.exhaust)
  from p q Cons.IH show ?case by simp
qed

lemma failed_step:
  assumes "process_document_to_text_list env [f] False w = (raw, w2)" "py_strip raw = []"
  shows "cv_loop env (f # post) d w = cv_loop env post (dict_set d (basename f) failed_cv) w2"
  using assms by simp

lemma convert_recording:
  "convert_pdf_to_images (recording env) p (w, log) =
     (case convert_pdf_to_images env p w of (r, w') \<Rightarrow> (r, (w', log @ [Call_open p])))"
  by (simp add: convert_pdf_to_images_def recording_def logged_def
      split: prod.splits sum.splits option.splits)

lemma get_text_recording:
  "get_text_from_image_data (recording env) img (w, log) =
     (case get_text_from_image_data env img w of (r, w') \<Rightarrow> (r, (w', log @ [Call_vision img])))"
  by (simp add: get_text_from_image_data_def recording_def logged_def
      split: prod.splits sum.splits option.splits)

lemma extract_pages_recording:
  "extract_pages (recording env) imgs acc (w, log) =
     (case extract_pages env imgs acc w of
        (r, w') \<Rightarrow> (r, (w', log @ map Call_vision imgs)))"
proof (induction imgs arbitrary: acc w log)
  case Nil
  show ?case by simp
next
  case (Cons img imgs)
  obtain t w1 where "get_text_from_image_data env img w = (t, w1)" by (metis prod.exhaust)
  with Cons.IH show ?case by (simp add: get_text_recording split: prod.splits)
qed

lemma load_images_recording:
  "load_images (recording env) p (w, log) =
     (case load_images env p w of
        (r, w') \<Rightarrow>
          (r, (w', log @ [if endswith (py_lower p) ''.pdf'' then Call_open p else Call_read p])))"
proof (cases "endswith (py_lower p) ''.pdf''")
  case True
  then show ?thesis
    by (simp add: load_images_def convert_recording split: prod.splits)
next
  case False
  then show ?thesis
    by (simp add: load_images_def recording_def logged_def split: prod.splits sum.splits)
qed

lemma process_files_recording:
  "process_files (recording env) fs single acc (w, log) = (raw, (w', log')) \<Longrightarrow>
   process_files env fs single acc w = (raw, w') \<and>
   filter is_profile_call log' = filter is_profile_call log"
proof (induction fs arbitrary: acc w log)
  case Nil
  then show ?case by simp
next
  case (Cons f fs)
  obtain r w1 where l: "load_images env f w = (r, w1)" by (metis prod.exhaust)
  let ?c = "if endswith (py_lower f) ''.pdf'' then Call_open f else Call_read f"
  have np: "\<not> is_profile_call ?c" by simp
  show ?case
  proof (cases r)
    case None
    with l Cons.prems np show ?thesis
      by (simp add: load_images_recording del: is_profile_call.simps)
        (auto simp: np)
  next
    case (Some imgs)
    obtain ps w2 where e: "extract_pages env imgs acc w1 = (ps, w2)" by (metis prod.exhaust)
    have nv: "filter is_profile_call (map Call_vision imgs) = []"
      by (induction imgs) auto
    show ?thesis
    proof (cases single)
      case True
      with l Some e Cons.prems have "raw = py_join page_sep ps" "w' = w2"
        "log' = (log @ [?c]) @ map Call_vision imgs"
        by (simp_all add: load_images_recording extract_pages_recording)
      with l Some e True nv np show ?thesis by simp
    next
      case False
      with l Some e Cons.prems have
        "process_files (recording env) fs single ps (w2, (log @ [?c]) @ map Call_vision imgs) =
           (raw, (w', log'))"
        by (simp add: load_images_recording extract_pages_recording)
      from Cons.IH [OF this] l Some e False nv np show ?thesis by simp
    qed
  qed
qed

lemma rasterization_failed_pdf:
  "endswith (py_lower f) ''.pdf'' \<Longrightarrow> fst (convert_pdf_to_images env f w) = [] \<Longrightarrow>
   fst (process_document_to_text_list env [f] False w) = []"
  by (auto simp: process_one_file load_images_def split: prod.splits)

lemma unreadable_image:
  "\<not> endswith (py_lower f) ''.pdf'' \<Longrightarrow> fst (read_file env f w) = Inl e \<Longrightarrow>
   fst (process_document_to_text_list env [f] False w) = []"
  by (auto simp: process_one_file load_images_def split: prod.splits)

text \<open>
  C8. A PDF whose conversion gives no image, and an image file that cannot be read, have
  the empty raw text. A document whose raw text is empty once the blanks are stripped is
  stored under its file name with the entry \<^verbatim>\<open>No text extracted.\<close>, the profile
  service is not called for it (extracting its text records no call of that service and
  the loop goes straight on from the world the extraction left), and the documents before
  and after it in the batch are processed as the loop processes them.
\<close>

theorem failed_document_is_isolated:
  "(endswith (py_lower f) ''.pdf'' \<and> fst (convert_pdf_to_images env f w) = []
      \<longrightarrow> fst (process_document_to_text_list env [f] False w) = []) \<and>
   (\<not> endswith (py_lower f) ''.pdf'' \<and> fst (read_file env f w) = Inl e
      \<longrightarrow> fst (process_document_to_text_list env [f] False w) = []) \<and>
   (cv_loop env pre [] w = (d1, w1) \<and>
    process_document_to_text_list env [f] False w1 = (raw, w2) \<and> py_strip raw = []
      \<longrightarrow> run_cv_processing env (pre @ f # post) w =
            cv_loop env post (dict_set d1 (basename f) failed_cv) w2) \<and>
   (process_document_to_text_list (recording env) [f] False (w, log) = (raw, (w', log'))
      \<longrightarrow> process_document_to_text_list env [f] False w = (raw, w') \<and>
          filter is_profile_call log' = filter is_profile_call log) \<and>
   parsed_info failed_cv = ''No text extracted.'' \<and>
   skipped failed_cv"
proof (intro conjI impI)
  assume "endswith (py_lower f) ''.pdf'' \<and> fst (convert_pdf_to_images env f w) = []"
  then show "fst (process_document_to_text_list env [f] False w) = []"
    by (simp add: rasterization_failed_pdf)
next
  assume "\<not> endswith (py_lower f) ''.pdf'' \<and> fst (read_file env f w) = Inl e"
  then show "fst (process_document_to_text_list env [f] False w) = []"
    by (simp add: unreadable_image)
next
  assume "cv_loop env pre [] w = (d1, w1) \<and>
    process_document_to_text_list env [f] False w1 = (raw, w2) \<and> py_strip raw = []"
  then show "run_cv_processing env (pre @ f # post) w =
            cv_loop env post (dict_set d1 (basename f) failed_cv) w2"
    by (simp add: run_cv_processing_def cv_loop_append)
next
  assume r: "process_document_to_text_list (recording env) [f] False (w, log) = (raw, (w', log'))"
  from process_files_recording [of env "[f]" False "[]" w log raw w' log'] r
  show "process_document_to_text_list env [f] False w = (raw, w')"
    and "filter is_profile_call log' = filter is_profile_call log"
    by (simp_all add: process_document_to_text_list_def)
next
  show "parsed_info failed_cv = ''No text extracted.''" by (simp add: failed_cv_def)
  show "skipped failed_cv" by (simp add: skipped_def failed_cv_def)
qed


theorem failed_document_is_isolated_witness:
  "fst (process_document_to_text_list sample [''torn.pdf''] False ()) = [] \<and>
   fst (process_document_to_text_list sample [''x.jpg''] False ()) = [] \<and>
   run_cv_processing sample ([''a/cv.pdf''] @ ''torn.pdf'' # [''scan.png'']) () =
     ([(''cv.pdf'', \<lparr>text_raw_cv = ''Alice Python'' @ page_sep,
                      parsed_info = ''Skills: Alice Python'' @ page_sep\<rparr>),
       (''torn.pdf'', failed_cv),
       (''scan.png'', \<lparr>text_raw_cv = ''Carol'', parsed_info = ''Error parsing CV: quota''\<rparr>)],
      ()) \<and>
   filter is_profile_call
     (snd (snd (process_document_to_text_list (recording sample) [''torn.pdf''] False ((), [])))) = []"
proof -
  let ?d1 = "[(''cv.pdf'', \<lparr>text_raw_cv = ''Alice Python'' @ page_sep,
                      parsed_info = ''Skills: Alice Python'' @ page_sep\<rparr>)]"
  have a1: "endswith (py_lower ''torn.pdf'') ''.pdf''"
    by (simp add: ingest_simps)
  have a2: "fst (convert_pdf_to_images sample ''torn.pdf'' ()) = []"
    by (simp add: ingest_simps sample_simps)
  have b1: "\<not> endswith (py_lower ''x.jpg'') ''.pdf''"
    by (simp add: ingest_simps)
  have b2: "fst (read_file sample ''x.jpg'' ()) = Inl ''no such file''"
    by (simp add: sample_simps)
  have c1: "cv_loop sample [''a/cv.pdf''] [] () = (?d1, ())"
    by (simp add: ingest_simps sample_simps is_space_def py_strip_def)
  have c2: "process_document_to_text_list sample [''torn.pdf''] False () = ([], ())"
    by (simp add: ingest_simps sample_simps)
  have c3: "py_strip [] = []" by (simp add: py_strip_def)
  have d: "process_document_to_text_list (recording sample) [''torn.pdf''] False ((), []) =
      ([], ((), [Call_open ''torn.pdf'']))"
    by (simp add: ingest_simps sample_simps recording_def logged_def)
  have rest: "cv_loop sample [''scan.png''] (dict_set ?d1 (basename ''torn.pdf'') failed_cv) () =
     ([(''cv.pdf'', \<lparr>text_raw_cv = ''Alice Python'' @ page_sep,
                      parsed_info = ''Skills: Alice Python'' @ page_sep\<rparr>),
       (''torn.pdf'', failed_cv),
       (''scan.png'', \<lparr>text_raw_cv = ''Carol'', parsed_info = ''Error parsing CV: quota''\<rparr>)],
      ())"
    by (simp add: ingest_simps sample_simps is_space_def py_strip_def)
  from failed_document_is_isolated [where env = sample and f = "''torn.pdf''" and w = "()"
      and pre = "[''a/cv.pdf'']" and ?d1.0 = ?d1 and ?w1.0 = "()" and raw = "[]"
      and ?w2.0 = "()" and post = "[''scan.png'']" and log = "[]" and w' = "()"
      and log' = "[Call_open ''torn.pdf'']"]
    a1 a2 c1 c2 c3 d rest
  have p: "fst (process_document_to_text_list sample [''torn.pdf''] False ()) = []"
    and q: "run_cv_processing sample ([''a/cv.pdf''] @ ''torn.pdf'' # [''scan.png'']) () =
     ([(''cv.pdf'', \<lparr>text_raw_cv = ''Alice Python'' @ page_sep,
                      parsed_info = ''Skills: Alice Python'' @ page_sep\<rparr>),
       (''torn.pdf'', failed_cv),
       (''scan.png'', \<lparr>text_raw_cv = ''Carol'', parsed_info = ''Error parsing CV: quota''\<rparr>)],
      ())"
    and r: "filter is_profile_call [Call_open ''torn.pdf''] = filter is_profile_call []"
    by simp_all
  from failed_document_is_isolated [where env = sample and f = "''x.jpg''" and w = "()"
      and e = "''no such file''"] b1 b2
  have s: "fst (process_document_to_text_list sample [''x.jpg''] False ()) = []"
    by blast
  from p q r s d show ?thesis by simp
qed

subsection \<open>The CV batch: file names as keys\<close>

lemma split_on_length: "length (split_on d s) = Suc (length (filter (\<lambda>c. c = d) s))"
  by (induction s) (auto split: list.splits)

lemma split_on_none: "d \<notin> set s \<Longrightarrow> split_on d s = [s]"
  by (induction s) auto

lemma split_on_last:
  "d \<notin> set ys \<Longrightarrow> last (split_on d (xs @ d # ys)) = ys"
proof (induction xs)
  case Nil
  then show ?case by (simp add: split_on_none)
next
  case (Cons c xs)
  have "length (split_on d (xs @ d # ys)) \<ge> 2"
    by (simp add: split_on_length)
  then obtain p q ps where s: "split_on d (xs @ d # ys) = p # q # ps"
    by (cases "split_on d (xs @ d # ys)"; cases "tl (split_on d (xs @ d # ys))") auto
  with Cons show ?case by auto
qed

lemma basename_spec:
  "CHR ''/'' \<notin> set (basename p) \<and>
   (\<exists>pre. p = pre @ basename p \<and> (pre = [] \<or> last pre = CHR ''/''))"
proof (cases "CHR ''/'' \<in> set p")
  case False
  then have "basename p = p" by (simp add: basename_def split_on_none)
  with False show ?thesis by simp
next
  case True
  then obtain xs ys where p: "p = xs @ CHR ''/'' # ys" and ys: "CHR ''/'' \<notin> set ys"
    by (meson split_list_last)
  then have b: "basename p = ys" by (simp add: basename_def split_on_last)
  from p have "p = (xs @ [CHR ''/'']) @ ys \<and> last (xs @ [CHR ''/'']) = CHR ''/''" by simp
  with b ys show ?thesis by (metis)
qed

lemma dict_set_keys:
  "map fst (dict_set d k v) = (if k \<in> set (map fst d) then map fst d else map fst d @ [k])"
proof (induction d)
  case Nil
  show ?case by simp
next
  case (Cons x d)
  obtain k' v' where x: "x = (k', v')" by (cases x)
  show ?case
  proof (cases "k' = k")
    case True
    with x show ?thesis by simp
  next
    case False
    with x Cons.IH show ?thesis by simp
  qed
qed

lemma dict_set_lookup: "map_of (dict_set d k v) k = Some v"
  by (induction d) auto

lemma dict_set_other: "k' \<noteq> k \<Longrightarrow> map_of (dict_set d k v) k' = map_of d k'"
  by (induction d) auto

lemma dict_set_length:
  "length (dict_set d k v) = (if k \<in> set (map fst d) then length d else Suc (length d))"
  using dict_set_keys [of d k v] by (metis length_map length_append_singleton)

lemma cv_loop_keys:
  "distinct (map fst d) \<Longrightarrow>
   distinct (map fst (fst (cv_loop env files d w))) \<and>
   set (map fst (fst (cv_loop env files d w))) = set (map fst d) \<union> basename ` set files \<and>
   length (fst (cv_loop env files d w)) \<le> length d + length files"
proof (induction files arbitrary: d w)
  case Nil
  then show ?case by simp
next
  case (Cons f files)
  from cv_loop_step [of env f files d w] obtain entry w' where
    s: "cv_loop env (f # files) d w = cv_loop env files (dict_set d (basename f) entry) w'"
    by blast
  let ?d = "dict_set d (basename f) entry"
  from Cons.prems have dd: "distinct (map fst ?d)" by (simp add: dict_set_keys)
  have ks: "set (map fst ?d) = insert (basename f) (set (map fst d))"
    by (auto simp: dict_set_keys)
  have ln: "length ?d \<le> Suc (length d)" by (simp add: dict_set_length)
  from Cons.IH [OF dd, of w'] s ks ln show ?case by auto
qed

lemma sample_first:
  "cv_loop sample [''a/cv.pdf''] [] () =
     ([(''cv.pdf'', \<lparr>text_raw_cv = ''Alice Python'' @ page_sep,
                      parsed_info = ''Skills: Alice Python'' @ page_sep\<rparr>)], ())"
  by (simp add: ingest_simps sample_simps is_space_def py_strip_def)

lemma sample_second:
  "cv_loop sample [''b/cv.pdf'']
     [(''cv.pdf'', \<lparr>text_raw_cv = ''Alice Python'' @ page_sep,
                     parsed_info = ''Skills: Alice Python'' @ page_sep\<rparr>)] () =
     ([(''cv.pdf'', \<lparr>text_raw_cv = ''Bob Java'', parsed_info = ''Skills: Bob Java''\<rparr>)], ())"
  by (simp add: ingest_simps sample_simps is_space_def py_strip_def)

lemma sample_third:
  "cv_loop sample [''scan.png'']
     [(''cv.pdf'', \<lparr>text_raw_cv = ''Bob Java'', parsed_info = ''Skills: Bob Java''\<rparr>)] () =
     ([(''cv.pdf'', \<lparr>text_raw_cv = ''Bob Java'', parsed_info = ''Skills: Bob Java''\<rparr>),
       (''scan.png'', \<lparr>text_raw_cv = ''Carol'', parsed_info = ''Error parsing CV: quota''\<rparr>)],
      ())"
  by (simp add: ingest_simps sample_simps is_space_def py_strip_def)

lemma sample_same_name:
  "run_cv_processing sample [''a/cv.pdf'', ''b/cv.pdf''] () =
     ([(''cv.pdf'', \<lparr>text_raw_cv = ''Bob Java'', parsed_info = ''Skills: Bob Java''\<rparr>)], ())"
proof -
  have l: "[''a/cv.pdf'', ''b/cv.pdf''] = [''a/cv.pdf''] @ [''b/cv.pdf'']" by simp
  have "cv_loop sample ([''a/cv.pdf''] @ [''b/cv.pdf'']) [] () =
      (case cv_loop sample [''a/cv.pdf''] [] () of (d', w') \<Rightarrow> cv_loop sample [''b/cv.pdf''] d' w')"
    by (rule cv_loop_append)
  also have "\<dots> = ([(''cv.pdf'', \<lparr>text_raw_cv = ''Bob Java'', parsed_info = ''Skills: Bob Java''\<rparr>)], ())"
    by (simp only: sample_first prod.case sample_second)
  finally show ?thesis
    unfolding run_cv_processing_def by (subst l)
qed

lemma sample_three_files:
  "run_cv_processing sample [''a/cv.pdf'', ''b/cv.pdf'', ''scan.png''] () =
     ([(''cv.pdf'', \<lparr>text_raw_cv = ''Bob Java'', parsed_info = ''Skills: Bob Java''\<rparr>),
       (''scan.png'', \<lparr>text_raw_cv = ''Carol'', parsed_info = ''Error parsing CV: quota''\<rparr>)],
      ())"
proof -
  have l: "[''a/cv.pdf'', ''b/cv.pdf'', ''scan.png''] = [''a/cv.pdf'', ''b/cv.pdf''] @ [''scan.png'']"
    by simp
  have "cv_loop sample ([''a/cv.pdf'', ''b/cv.pdf''] @ [''scan.png'']) [] () =
      (case cv_loop sample [''a/cv.pdf'', ''b/cv.pdf''] [] () of
         (d', w') \<Rightarrow> cv_loop sample [''scan.png''] d' w')"
    by (rule cv_loop_append)
  also have "\<dots> =
     ([(''cv.pdf'', \<lparr>text_raw_cv = ''Bob Java'', parsed_info = ''Skills: Bob Java''\<rparr>),
       (''scan.png'', \<lparr>text_raw_cv = ''Carol'', parsed_info = ''Error parsing CV: quota''\<rparr>)],
      ())"
    by (simp only: sample_same_name [unfolded run_cv_processing_def] prod.case sample_third)
  finally show ?thesis
    unfolding run_cv_processing_def by (subst l)
qed

text \<open>
  C9. The key of a document is what stands behind the last slash of its path. The keys
  of the candidate mapping are the file names of the batch, each once, so the mapping
  never has more entries than the batch has files; storing under a key that is there
  replaces the entry and adds none. The batch \<^verbatim>\<open>a/cv.pdf\<close>, \<^verbatim>\<open>b/cv.pdf\<close>
  gives one candidate, that of the second file, and one rating.
\<close>

theorem candidates_keyed_by_basename:
  "CHR ''/'' \<notin> set (basename p) \<and>
   (\<exists>pre. p = pre @ basename p \<and> (pre = [] \<or> last pre = CHR ''/'')) \<and>
   set (map fst (fst (run_cv_processing env files w))) = basename ` set files \<and>
   distinct (map fst (fst (run_cv_processing env files w))) \<and>
   length (fst (run_cv_processing env files w)) \<le> length files \<and>
   (\<exists>entry w'. cv_loop env (f # rest) d w =
      cv_loop env rest (dict_set d (basename f) entry) w') \<and>
   map_of (dict_set d k v) k = Some v \<and>
   length (dict_set d k v) = (if k \<in> set (map fst d) then length d else Suc (length d)) \<and>
   fst (run_cv_processing sample [''a/cv.pdf'', ''b/cv.pdf''] ()) =
     [(''cv.pdf'', \<lparr>text_raw_cv = ''Bob Java'', parsed_info = ''Skills: Bob Java''\<rparr>)] \<and>
   length (fst (run_cv_processing sample [''a/cv.pdf'', ''b/cv.pdf''] ())) <
     length [''a/cv.pdf'', ''b/cv.pdf''] \<and>
   length (snd (fst (run_matching_and_rating sample ''job''
     (fst (run_cv_processing sample [''a/cv.pdf'', ''b/cv.pdf''] ())) ()))) = 1"
proof (intro conjI)
  show "CHR ''/'' \<notin> set (basename p)"
    and "\<exists>pre. p = pre @ basename p \<and> (pre = [] \<or> last pre = CHR ''/'')"
    using basename_spec [of p] by blast+
  show "set (map fst (fst (run_cv_processing env files w))) = basename ` set files"
    and "distinct (map fst (fst (run_cv_processing env files w)))"
    and "length (fst (run_cv_processing env files w)) \<le> length files"
    using cv_loop_keys [of "[]" env files w] by (simp_all add: run_cv_processing_def)
  show "\<exists>entry w'. cv_loop env (f # rest) d w =
      cv_loop env rest (dict_set d (basename f) entry) w'"
    by (rule cv_loop_step)
  show "map_of (dict_set d k v) k = Some v"
    by (rule dict_set_lookup)
  show "length (dict_set d k v) = (if k \<in> set (map fst d) then length d else Suc (length d))"
    by (rule dict_set_length)
  show r: "fst (run_cv_processing sample [''a/cv.pdf'', ''b/cv.pdf''] ()) =
     [(''cv.pdf'', \<lparr>text_raw_cv = ''Bob Java'', parsed_info = ''Skills: Bob Java''\<rparr>)]"
    by (simp only: sample_same_name fst_conv)
  show "length (fst (run_cv_processing sample [''a/cv.pdf'', ''b/cv.pdf''] ())) <
     length [''a/cv.pdf'', ''b/cv.pdf'']"
    unfolding r by simp
  show "length (snd (fst (run_matching_and_rating sample ''job''
     (fst (run_cv_processing sample [''a/cv.pdf'', ''b/cv.pdf''] ())) ()))) = 1"
    unfolding r by (simp only: ranked_length) simp
qed

theorem candidates_keyed_by_basename_witness:
  "basename ''b/cv.pdf'' = ''cv.pdf'' \<and>
   map fst (fst (run_cv_processing sample [''a/cv.pdf'', ''b/cv.pdf'', ''scan.png''] ())) =
     [''cv.pdf'', ''scan.png''] \<and>
   length (dict_set [(''cv.pdf'', failed_cv)] ''cv.pdf'' failed_cv) = 1"
proof -
  have a: "basename ''b/cv.pdf'' = ''cv.pdf''" by (simp add: basename_def)
  have b: "map fst (fst (run_cv_processing sample [''a/cv.pdf'', ''b/cv.pdf'', ''scan.png''] ())) =
     [''cv.pdf'', ''scan.png'']"
    by (simp only: sample_three_files fst_conv list.map)
  from candidates_keyed_by_basename [where d = "[(''cv.pdf'', failed_cv)]" and k = "''cv.pdf''"
      and v = failed_cv and p = "''b/cv.pdf''" and env = sample and w = "()"
      and files = "[''a/cv.pdf'', ''b/cv.pdf'', ''scan.png'']" and f = "''b/cv.pdf''"
      and rest = "[]"]
  have "length (dict_set [(''cv.pdf'', failed_cv)] ''cv.pdf'' failed_cv) =
      (if ''cv.pdf'' \<in> set (map fst [(''cv.pdf'', failed_cv)])
       then length [(''cv.pdf'', failed_cv)] else Suc (length [(''cv.pdf'', failed_cv)]))"
    by - (elim conjE, assumption)
  with a b show ?thesis by simp
qed

end
